theory Spec2Isabelle
  imports Main
begin

section \<open>JavaScript strings\<close>

text \<open>
  \<^verbatim>\<open>String.prototype.includes\<close>: \<open>js_includes s sub\<close> holds when \<open>sub\<close> occurs in \<open>s\<close> as a
  contiguous run; the empty string occurs in every string. URLs, path names and messages are
  compared against ASCII literals only, so they are kept as \<open>string\<close>.
\<close>

fun starts_with :: "'a list \<Rightarrow> 'a list \<Rightarrow> bool" where
  "starts_with s [] = True"
| "starts_with [] (x # xs) = False"
| "starts_with (c # cs) (x # xs) = (c = x \<and> starts_with cs xs)"

fun js_includes :: "'a list \<Rightarrow> 'a list \<Rightarrow> bool" where
  "js_includes [] sub = (sub = [])"
| "js_includes (c # cs) sub = (starts_with (c # cs) sub \<or> js_includes cs sub)"

text \<open>
  A value that is a string, \<^verbatim>\<open>null\<close> or \<^verbatim>\<open>undefined\<close>: the access token, a field of a response
  body. In a condition it counts as true when it is a non-empty string.
\<close>

datatype js_value = Null | Undefined | Str string

definition truthy :: "js_value \<Rightarrow> bool" where
  "truthy v = (case v of Null \<Rightarrow> False | Undefined \<Rightarrow> False | Str t \<Rightarrow> t \<noteq> [])"

text \<open>
  The template literal \<^verbatim>\<open>`Bearer ${token}`\<close>: \<^verbatim>\<open>null\<close> prints as \<^verbatim>\<open>null\<close> and \<^verbatim>\<open>undefined\<close> as
  \<^verbatim>\<open>undefined\<close>.
\<close>

definition bearer :: "js_value \<Rightarrow> string" where
  "bearer tok =
     ''Bearer '' @ (case tok of Null \<Rightarrow> ''null'' | Undefined \<Rightarrow> ''undefined'' | Str t \<Rightarrow> t)"

section \<open>The API client (\<^verbatim>\<open>frontend/src/lib/api.ts\<close>)\<close>

text \<open>
  The part of an axios request configuration that the interceptors read and write: the
  request's \<^verbatim>\<open>url\<close>, the custom flag \<^verbatim>\<open>_retry\<close> and the \<^verbatim>\<open>Authorization\<close> header.
\<close>

record request_config =
  url :: "string option"
  retry :: bool
  Authorization :: "string option"

text \<open>
  The error passed to the response interceptor: \<^verbatim>\<open>error.config\<close> and
  \<^verbatim>\<open>error.response?.status\<close>, which is undefined when no response arrived.
\<close>

record axios_error =
  config :: request_config
  status :: "nat option"

text \<open>The user object kept by \<^verbatim>\<open>AuthProvider\<close>.\<close>

record user_data =
  user_id :: string
  tenant_id :: string
  email :: string

text \<open>Network calls the client issues.\<close>

datatype call =
    Post_auth_refresh
  | Api request_config

text \<open>
  The state of one browser session: the module variable \<^verbatim>\<open>accessToken\<close>, the path name of
  \<^verbatim>\<open>window.location\<close> (\<open>None\<close> where \<^verbatim>\<open>window\<close> is undefined), the \<^verbatim>\<open>user\<close> state of
  \<^verbatim>\<open>AuthProvider\<close>, the response-interceptor invocations that are suspended at
  \<^verbatim>\<open>await axios.post('http://localhost:8000/auth/refresh', ...)\<close>, each with its
  \<^verbatim>\<open>originalRequest\<close>, and the network calls issued so far.
\<close>

record client =
  accessToken :: js_value
  pathname :: "string option"
  user :: "user_data option"
  suspended :: "request_config list"
  calls :: "call list"

definition setAccessToken :: "js_value \<Rightarrow> client \<Rightarrow> client" where
  "setAccessToken token s = s\<lparr>accessToken := token\<rparr>"

text \<open>Request interceptor: attach the access token when there is one.\<close>

definition request_interceptor :: "client \<Rightarrow> request_config \<Rightarrow> request_config" where
  "request_interceptor s c =
     (if truthy (accessToken s) then c\<lparr>Authorization := Some (bearer (accessToken s))\<rparr> else c)"

subsection \<open>Response interceptor\<close>

definition isAuthEndpoint :: "request_config \<Rightarrow> bool" where
  "isAuthEndpoint c = (case url c of None \<Rightarrow> False | Some u \<Rightarrow> js_includes u ''/auth/'')"

text \<open>The authentication endpoints that the client calls, as the API functions name them.\<close>

definition auth_endpoints :: "string list" where
  "auth_endpoints =
     [''/auth/tenants'', ''/auth/register'', ''/auth/login'', ''/auth/refresh'', ''/auth/logout'']"

text \<open>
  The synchronous part of the error handler, up to the \<^verbatim>\<open>await\<close>: either the error is
  rejected as it came, or the request is flagged and the refresh call is issued.
\<close>

datatype pending =
    Reject axios_error
  | Await_refresh request_config

definition on_response_error :: "axios_error \<Rightarrow> pending" where
  "on_response_error e =
     (if status e = Some 401 \<and> \<not> retry (config e) \<and> \<not> isAuthEndpoint (config e)
      then Await_refresh ((config e)\<lparr>retry := True\<rparr>)
      else Reject e)"

text \<open>
  The continuation after the refresh call resolved with \<^verbatim>\<open>response.data.access_token\<close>: the
  token is installed and the original request is handed back to \<^verbatim>\<open>api\<close> with the new header.
\<close>

definition refresh_fulfilled ::
  "client \<Rightarrow> request_config \<Rightarrow> js_value \<Rightarrow> client \<times> request_config" where
  "refresh_fulfilled s originalRequest newToken =
     (setAccessToken newToken s, originalRequest\<lparr>Authorization := Some (bearer newToken)\<rparr>)"

text \<open>The \<^verbatim>\<open>catch\<close> branch: the refresh call was rejected.\<close>

definition refresh_rejected :: "client \<Rightarrow> client" where
  "refresh_rejected s =
     (let s' = setAccessToken Null s in
      case pathname s' of
        None \<Rightarrow> s'
      | Some p \<Rightarrow> if \<not> js_includes p ''/login'' then s'\<lparr>pathname := Some ''/login''\<rparr> else s')"

subsection \<open>\<^verbatim>\<open>AuthProvider.logout\<close>\<close>

definition logout :: "client \<Rightarrow> client" where
  "logout s = (setAccessToken Null s)\<lparr>user := None\<rparr>"

subsection \<open>Events of a session\<close>

text \<open>
  JavaScript runs each handler to its next \<^verbatim>\<open>await\<close> without interruption, so a session is a
  sequence of events: a request of \<^verbatim>\<open>api\<close> fails, the refresh call of the \<open>i\<close>-th suspended
  handler resolves or is rejected, the user logs out. An event for a handler that does not
  exist leaves the state as it is.
\<close>

datatype event =
    Response_error axios_error
  | Refresh_resolved nat js_value
  | Refresh_failed nat
  | Logout

definition drop_nth :: "nat \<Rightarrow> 'a list \<Rightarrow> 'a list" where
  "drop_nth i xs = take i xs @ drop (Suc i) xs"

fun step :: "client \<Rightarrow> event \<Rightarrow> client" where
  "step s (Response_error e) =
     (case on_response_error e of
        Reject _ \<Rightarrow> s
      | Await_refresh c \<Rightarrow>
          s\<lparr>suspended := suspended s @ [c], calls := calls s @ [Post_auth_refresh]\<rparr>)"
| "step s (Refresh_resolved i newToken) =
     (if i < length (suspended s) then
        (case refresh_fulfilled s (suspended s ! i) newToken of
           (s', c) \<Rightarrow>
             s'\<lparr>suspended := drop_nth i (suspended s),
                calls := calls s @ [Api (request_interceptor s' c)]\<rparr>)
      else s)"
| "step s (Refresh_failed i) =
     (if i < length (suspended s) then
        (refresh_rejected s)\<lparr>suspended := drop_nth i (suspended s)\<rparr>
      else s)"
| "step s Logout = logout s"

definition run :: "client \<Rightarrow> event list \<Rightarrow> client" where
  "run s evs = foldl step s evs"

text \<open>The refresh exchanges that are outstanding: one for each suspended handler.\<close>

definition outstanding_refreshes :: "client \<Rightarrow> nat" where
  "outstanding_refreshes s = length (suspended s)"

definition refresh_calls :: "client \<Rightarrow> nat" where
  "refresh_calls s = length (filter (\<lambda>c. c = Post_auth_refresh) (calls s))"

subsection \<open>One request from sending to settling\<close>

text \<open>
  \<open>api replies refreshes s c\<close> follows one request through \<^verbatim>\<open>api\<close>: it is sent, the server's
  answers to the request are taken from \<open>replies\<close> and its answers to refresh calls from
  \<open>refreshes\<close>. The result holds the client state, the number of times the request was sent,
  and how the promise settled (\<open>None\<close> while an answer is missing).
\<close>

datatype reply = Success | Failure "nat option"

datatype refresh_reply = Refresh_ok js_value | Refresh_error

datatype settled = Resolved | Rejected_original axios_error | Rejected_refresh

fun api :: "reply list \<Rightarrow> refresh_reply list \<Rightarrow> client \<Rightarrow> request_config
    \<Rightarrow> client \<times> nat \<times> settled option" where
  "api [] refreshes s c = (s, 1, None)"
| "api (Success # replies) refreshes s c = (s, 1, Some Resolved)"
| "api (Failure st # replies) refreshes s c =
     (case on_response_error \<lparr>config = request_interceptor s c, status = st\<rparr> of
        Reject e \<Rightarrow> (s, 1, Some (Rejected_original e))
      | Await_refresh originalRequest \<Rightarrow>
          (case refreshes of
             [] \<Rightarrow> (s, 1, None)
           | Refresh_error # refreshes' \<Rightarrow> (refresh_rejected s, 1, Some Rejected_refresh)
           | Refresh_ok newToken # refreshes' \<Rightarrow>
               (case refresh_fulfilled s originalRequest newToken of
                  (s', c') \<Rightarrow>
                    (case api replies refreshes' s' c' of
                       (s'', n, r) \<Rightarrow> (s'', Suc n, r)))))"

subsection \<open>\<^verbatim>\<open>AuthProvider.login\<close>\<close>

definition login :: "string \<Rightarrow> user_data \<Rightarrow> client \<Rightarrow> client" where
  "login token userData s = (setAccessToken (Str token) s)\<lparr>user := Some userData\<rparr>"

section \<open>The registration page\<close>

text \<open>
  The state of the \<^verbatim>\<open>Register\<close> component. What the user types is a JavaScript string, a
  sequence of UTF-16 code units of which \<^verbatim>\<open>.length\<close> is the number; the type of a code unit is
  left open as \<open>'c\<close>.
\<close>

record tenant_option =
  id :: string
  name :: string

record 'c register_page =
  email :: "'c list"
  password :: "'c list"
  confirmPassword :: "'c list"
  tenantId :: string
  tenants :: "tenant_option list"
  error :: string
  isLoading :: bool

text \<open>The body of \<^verbatim>\<open>POST /auth/register\<close>.\<close>

record 'c register_body =
  email :: "'c list"
  password :: "'c list"
  tenant_id :: string

text \<open>
  \<^verbatim>\<open>handleSubmit\<close> up to its \<^verbatim>\<open>await\<close>: the new state of the page and the request that was
  issued, if any.
\<close>

definition handleSubmit :: "'c register_page \<Rightarrow> 'c register_page \<times> 'c register_body option" where
  "handleSubmit p =
     (let p1 = p\<lparr>error := []\<rparr> in
      if register_page.password p1 \<noteq> confirmPassword p1
      then (p1\<lparr>error := ''Passwords do not match''\<rparr>, None)
      else if length (register_page.password p1) < 8
      then (p1\<lparr>error := ''Password must be at least 8 characters''\<rparr>, None)
      else (p1\<lparr>isLoading := True\<rparr>,
            Some \<lparr>register_body.email = register_page.email p1,
                  password = register_page.password p1,
                  tenant_id = tenantId p1\<rparr>))"

text \<open>
  The rest of \<^verbatim>\<open>handleSubmit\<close>, once the request settled: with the response data, or with
  \<^verbatim>\<open>err.response?.data?.detail\<close>.
\<close>

datatype register_reply =
    Registered string user_data
  | Register_failed js_value

definition handleSubmit_settled ::
  "register_reply \<Rightarrow> client \<times> 'c register_page \<Rightarrow> client \<times> 'c register_page" where
  "handleSubmit_settled r sp =
     (case sp of (s, p) \<Rightarrow>
        (case r of
           Registered access_token u \<Rightarrow>
             ((login access_token u s)\<lparr>pathname := Some ''/dashboard''\<rparr>, p\<lparr>isLoading := False\<rparr>)
         | Register_failed detail \<Rightarrow>
             (s, p\<lparr>error := (case detail of
                               Str d \<Rightarrow> if d \<noteq> [] then d
                                        else ''Registration failed. Please try again.''
                             | Null \<Rightarrow> ''Registration failed. Please try again.''
                             | Undefined \<Rightarrow> ''Registration failed. Please try again.''),
                   isLoading := False\<rparr>)))"

section \<open>The schema (\<^verbatim>\<open>db/init.sql\<close>)\<close>

text \<open>
  One record for a row of each table, with the columns of its \<^verbatim>\<open>CREATE TABLE\<close>. The type
  \<open>'u\<close> stands for \<^verbatim>\<open>UUID\<close>, timestamps are numbers, \<^verbatim>\<open>JSONB\<close> values are kept as text, and a
  column without \<^verbatim>\<open>NOT NULL\<close> is an option. The legacy table \<^verbatim>\<open>gapminder_data\<close> belongs to
  no tenant and is left out.
\<close>

record 'u tenants_row =
  id :: 'u
  name :: string
  created_at :: "nat option"

record 'u users_row =
  id :: 'u
  tenant_id :: 'u
  email :: string
  password_hash :: string
  created_at :: "nat option"

record 'u refresh_tokens_row =
  id :: 'u
  user_id :: 'u
  token_hash :: string
  expires_at :: nat
  created_at :: "nat option"

record 'u datasets_row =
  id :: 'u
  tenant_id :: 'u
  user_id :: 'u
  name :: string
  columns :: string
  row_count :: int
  created_at :: "nat option"

record 'u dataset_rows_row =
  id :: 'u
  dataset_id :: 'u
  tenant_id :: 'u
  row_data :: string

datatype relation = Tenants | Users | Refresh_tokens | Datasets | Dataset_rows

datatype 'u row =
    In_tenants "'u tenants_row"
  | In_users "'u users_row"
  | In_refresh_tokens "'u refresh_tokens_row"
  | In_datasets "'u datasets_row"
  | In_dataset_rows "'u dataset_rows_row"

fun relation_of :: "'u row \<Rightarrow> relation" where
  "relation_of (In_tenants r) = Tenants"
| "relation_of (In_users r) = Users"
| "relation_of (In_refresh_tokens r) = Refresh_tokens"
| "relation_of (In_datasets r) = Datasets"
| "relation_of (In_dataset_rows r) = Dataset_rows"

text \<open>\<^verbatim>\<open>ALTER TABLE ... ENABLE ROW LEVEL SECURITY\<close>: the four tables it is issued for.\<close>

fun row_level_security :: "relation \<Rightarrow> bool" where
  "row_level_security Users = True"
| "row_level_security Datasets = True"
| "row_level_security Dataset_rows = True"
| "row_level_security Refresh_tokens = True"
| "row_level_security Tenants = False"

subsection \<open>The policy expressions\<close>

text \<open>
  Run-time settings map a name to its text. \<^verbatim>\<open>current_setting(name, missing_ok)\<close> is the
  text of a setting; for a setting that is not there it is \<^verbatim>\<open>NULL\<close> when \<^verbatim>\<open>missing_ok\<close> is
  true and an error otherwise. A nullable SQL value is an option, \<open>None\<close> for \<^verbatim>\<open>NULL\<close>.
\<close>

type_synonym settings = "string \<rightharpoonup> string"

datatype sql_error =
    Unrecognized_configuration_parameter
  | Invalid_text_representation
  | Row_security_violation
  | Unique_violation

definition current_setting :: "settings \<Rightarrow> string \<Rightarrow> bool \<Rightarrow> sql_error + string option" where
  "current_setting st setting_name missing_ok =
     (case st setting_name of
        Some v \<Rightarrow> Inr (Some v)
      | None \<Rightarrow> if missing_ok then Inr None else Inl Unrecognized_configuration_parameter)"

text \<open>
  The cast \<^verbatim>\<open>::uuid\<close>. How the database reads a UUID from text is the parameter \<open>uuid_in\<close>
  (\<open>None\<close> for text that is no UUID, which is an error); \<^verbatim>\<open>NULL\<close> casts to \<^verbatim>\<open>NULL\<close>.
\<close>

definition cast_uuid :: "(string \<Rightarrow> 'u option) \<Rightarrow> string option \<Rightarrow> sql_error + 'u option" where
  "cast_uuid uuid_in v =
     (case v of
        None \<Rightarrow> Inr None
      | Some t \<Rightarrow> (case uuid_in t of
                    None \<Rightarrow> Inl Invalid_text_representation
                  | Some u \<Rightarrow> Inr (Some u)))"

text \<open>SQL equality: \<^verbatim>\<open>NULL\<close> when an operand is \<^verbatim>\<open>NULL\<close>.\<close>

definition sql_eq :: "'a option \<Rightarrow> 'a option \<Rightarrow> bool option" where
  "sql_eq a b = (case a of None \<Rightarrow> None | Some x \<Rightarrow> (case b of None \<Rightarrow> None | Some y \<Rightarrow> Some (x = y)))"

text \<open>\<^verbatim>\<open>column = current_setting(name, true)::uuid\<close>, the shape of all four policies.\<close>

definition column_eq_setting ::
  "(string \<Rightarrow> 'u option) \<Rightarrow> settings \<Rightarrow> 'u \<Rightarrow> string \<Rightarrow> sql_error + bool option" where
  "column_eq_setting uuid_in st col setting_name =
     (case current_setting st setting_name True of
        Inl e \<Rightarrow> Inl e
      | Inr v \<Rightarrow> (case cast_uuid uuid_in v of
                    Inl e \<Rightarrow> Inl e
                  | Inr u \<Rightarrow> Inr (sql_eq (Some col) u)))"

definition users_tenant_isolation ::
  "(string \<Rightarrow> 'u option) \<Rightarrow> settings \<Rightarrow> 'u users_row \<Rightarrow> sql_error + bool option" where
  "users_tenant_isolation uuid_in st r =
     column_eq_setting uuid_in st (users_row.tenant_id r) ''app.current_tenant_id''"

definition datasets_tenant_isolation ::
  "(string \<Rightarrow> 'u option) \<Rightarrow> settings \<Rightarrow> 'u datasets_row \<Rightarrow> sql_error + bool option" where
  "datasets_tenant_isolation uuid_in st r =
     column_eq_setting uuid_in st (datasets_row.tenant_id r) ''app.current_tenant_id''"

definition dataset_rows_tenant_isolation ::
  "(string \<Rightarrow> 'u option) \<Rightarrow> settings \<Rightarrow> 'u dataset_rows_row \<Rightarrow> sql_error + bool option" where
  "dataset_rows_tenant_isolation uuid_in st r =
     column_eq_setting uuid_in st (dataset_rows_row.tenant_id r) ''app.current_tenant_id''"

definition refresh_tokens_user_isolation ::
  "(string \<Rightarrow> 'u option) \<Rightarrow> settings \<Rightarrow> 'u refresh_tokens_row \<Rightarrow> sql_error + bool option" where
  "refresh_tokens_user_isolation uuid_in st r =
     column_eq_setting uuid_in st (refresh_tokens_row.user_id r) ''app.current_user_id''"

subsection \<open>Roles\<close>

text \<open>
  The role a statement runs under. The file creates no role and grants no privilege: the
  tables belong to the role that runs the file, and any other role that reaches them was
  granted its privileges elsewhere; \<open>Granted_role b\<close> is such a role, with \<^verbatim>\<open>BYPASSRLS\<close> when
  \<open>b\<close> is true.
\<close>

datatype role = Superuser | Table_owner | Granted_role bool

text \<open>
  \<^verbatim>\<open>ALTER TABLE ... FORCE ROW LEVEL SECURITY\<close> would subject the owner of a table to its
  policies; the file issues it for no table.
\<close>

definition force_row_level_security :: "relation \<Rightarrow> bool" where
  "force_row_level_security rel = False"

text \<open>
  Whether the row security of a table applies to a role: never to a superuser or a role with
  \<^verbatim>\<open>BYPASSRLS\<close>, and to the owner of the table only where it is forced.
\<close>

fun row_security_applies :: "role \<Rightarrow> relation \<Rightarrow> bool" where
  "row_security_applies Superuser rel = False"
| "row_security_applies Table_owner rel =
     (row_level_security rel \<and> force_row_level_security rel)"
| "row_security_applies (Granted_role bypassrls) rel =
     (row_level_security rel \<and> \<not> bypassrls)"

subsection \<open>Row security applied to statements\<close>

text \<open>
  The policy expression of a row's table. No policy is declared on \<^verbatim>\<open>tenants\<close>, and none is
  consulted for it, since the table has no row security.
\<close>

fun policy :: "(string \<Rightarrow> 'u option) \<Rightarrow> settings \<Rightarrow> 'u row \<Rightarrow> sql_error + bool option" where
  "policy uuid_in st (In_tenants r) = Inr (Some True)"
| "policy uuid_in st (In_users r) = users_tenant_isolation uuid_in st r"
| "policy uuid_in st (In_refresh_tokens r) = refresh_tokens_user_isolation uuid_in st r"
| "policy uuid_in st (In_datasets r) = datasets_tenant_isolation uuid_in st r"
| "policy uuid_in st (In_dataset_rows r) = dataset_rows_tenant_isolation uuid_in st r"

text \<open>
  The policies are declared \<^verbatim>\<open>FOR ALL\<close> with a \<^verbatim>\<open>USING\<close> expression only, which then also
  checks the rows that a statement writes. \<open>passes\<close> is the check of one row in a statement
  of a role: the row passes where the row security of its table does not apply to the role;
  otherwise the expression must be true, and \<^verbatim>\<open>NULL\<close> counts as false.
\<close>

definition passes ::
  "role \<Rightarrow> (string \<Rightarrow> 'u option) \<Rightarrow> settings \<Rightarrow> 'u row \<Rightarrow> sql_error + bool" where
  "passes rl uuid_in st r =
     (if \<not> row_security_applies rl (relation_of r) then Inr True
      else (case policy uuid_in st r of
              Inl e \<Rightarrow> Inl e
            | Inr v \<Rightarrow> Inr (v = Some True)))"

text \<open>
  Statements over the rows of a table, with any \<^verbatim>\<open>WHERE\<close> condition \<open>cond\<close>. An error in the
  policy expression aborts the statement. The key, uniqueness and reference checks of the
  tables, which can only make an \<^verbatim>\<open>INSERT\<close> or an \<^verbatim>\<open>UPDATE\<close> fail, are not part of these
  statements; the cascades of a deletion are. \<^verbatim>\<open>SELECT\<close> returns the rows that pass and
  satisfy the condition.
\<close>

fun select_where ::
  "role \<Rightarrow> (string \<Rightarrow> 'u option) \<Rightarrow> settings \<Rightarrow> ('u row \<Rightarrow> bool) \<Rightarrow> 'u row list
    \<Rightarrow> sql_error + 'u row list" where
  "select_where rl uuid_in st cond [] = Inr []"
| "select_where rl uuid_in st cond (r # rs) =
     (case passes rl uuid_in st r of
        Inl e \<Rightarrow> Inl e
      | Inr ok \<Rightarrow>
          (case select_where rl uuid_in st cond rs of
             Inl e \<Rightarrow> Inl e
           | Inr out \<Rightarrow> Inr (if ok \<and> cond r then r # out else out)))"

text \<open>The condition of a statement without a \<^verbatim>\<open>WHERE\<close> clause.\<close>

definition no_condition :: "'u row \<Rightarrow> bool" where
  "no_condition r = True"

text \<open>
  \<^verbatim>\<open>UPDATE\<close> rewrites the rows that pass and satisfy the condition; the new row must pass
  as well, or the statement fails.
\<close>

fun update_where ::
  "role \<Rightarrow> (string \<Rightarrow> 'u option) \<Rightarrow> settings \<Rightarrow> ('u row \<Rightarrow> bool) \<Rightarrow> ('u row \<Rightarrow> 'u row)
    \<Rightarrow> 'u row list \<Rightarrow> sql_error + 'u row list" where
  "update_where rl uuid_in st cond f [] = Inr []"
| "update_where rl uuid_in st cond f (r # rs) =
     (case passes rl uuid_in st r of
        Inl e \<Rightarrow> Inl e
      | Inr ok \<Rightarrow>
          (if ok \<and> cond r then
             (case passes rl uuid_in st (f r) of
                Inl e \<Rightarrow> Inl e
              | Inr ok' \<Rightarrow>
                  (if ok' then
                     (case update_where rl uuid_in st cond f rs of
                        Inl e \<Rightarrow> Inl e
                      | Inr rest \<Rightarrow> Inr (f r # rest))
                   else Inl Row_security_violation))
           else
             (case update_where rl uuid_in st cond f rs of
                Inl e \<Rightarrow> Inl e
              | Inr rest \<Rightarrow> Inr (r # rest))))"

text \<open>\<^verbatim>\<open>INSERT\<close> adds a row that passes and fails for one that does not.\<close>

definition insert_row ::
  "role \<Rightarrow> (string \<Rightarrow> 'u option) \<Rightarrow> settings \<Rightarrow> 'u row \<Rightarrow> 'u row list
    \<Rightarrow> sql_error + 'u row list" where
  "insert_row rl uuid_in st r rs =
     (case passes rl uuid_in st r of
        Inl e \<Rightarrow> Inl e
      | Inr ok \<Rightarrow> if ok then Inr (rs @ [r]) else Inl Row_security_violation)"

subsection \<open>Deletion and its cascades\<close>

text \<open>
  A database holds the rows of all tables. The key of a row is its table with its \<^verbatim>\<open>id\<close>,
  the \<^verbatim>\<open>PRIMARY KEY\<close> of every table; the parent keys of a row are the keys that its columns
  declared \<^verbatim>\<open>REFERENCES ... ON DELETE CASCADE\<close> point to.
\<close>

type_synonym 'u database = "'u row list"

definition table_rows :: "relation \<Rightarrow> 'u database \<Rightarrow> 'u row list" where
  "table_rows rel db = filter (\<lambda>r. relation_of r = rel) db"

fun key_of :: "'u row \<Rightarrow> relation \<times> 'u" where
  "key_of (In_tenants r) = (Tenants, tenants_row.id r)"
| "key_of (In_users r) = (Users, users_row.id r)"
| "key_of (In_refresh_tokens r) = (Refresh_tokens, refresh_tokens_row.id r)"
| "key_of (In_datasets r) = (Datasets, datasets_row.id r)"
| "key_of (In_dataset_rows r) = (Dataset_rows, dataset_rows_row.id r)"

fun parent_keys :: "'u row \<Rightarrow> (relation \<times> 'u) list" where
  "parent_keys (In_tenants r) = []"
| "parent_keys (In_users r) = [(Tenants, users_row.tenant_id r)]"
| "parent_keys (In_refresh_tokens r) = [(Users, refresh_tokens_row.user_id r)]"
| "parent_keys (In_datasets r) =
     [(Tenants, datasets_row.tenant_id r), (Users, datasets_row.user_id r)]"
| "parent_keys (In_dataset_rows r) =
     [(Datasets, dataset_rows_row.dataset_id r), (Tenants, dataset_rows_row.tenant_id r)]"

definition referencing :: "(relation \<times> 'u) list \<Rightarrow> 'u row \<Rightarrow> bool" where
  "referencing ks r = list_ex (\<lambda>k. k \<in> set ks) (parent_keys r)"

text \<open>
  \<^verbatim>\<open>ON DELETE CASCADE\<close>: once the rows with the keys \<open>ks\<close> are deleted, the rows that
  reference one of them are deleted too, and so are the rows that reference those. No policy
  is consulted for a row that a cascade deletes.
\<close>

function cascade :: "(relation \<times> 'u) list \<Rightarrow> 'u database \<Rightarrow> 'u database" where
  "cascade ks db =
     (if list_ex (referencing ks) db
      then cascade (map key_of (filter (referencing ks) db))
             (filter (\<lambda>r. \<not> referencing ks r) db)
      else db)"
  by pat_completeness auto
termination
proof (relation "measure (\<lambda>(ks, db). length db)")
  show "wf (measure (\<lambda>(ks, db). length db))" by simp
next
  fix ks :: "(relation \<times> 'u) list" and db :: "'u database"
  assume "list_ex (referencing ks) db"
  then obtain r where "r \<in> set db" "referencing ks r"
    by (auto simp: list_ex_iff)
  then have "length (filter (\<lambda>r. \<not> referencing ks r) db) < length db"
    using length_filter_less [of r db "\<lambda>r. \<not> referencing ks r"] by simp
  then show "((map key_of (filter (referencing ks) db), filter (\<lambda>r. \<not> referencing ks r) db),
              (ks, db)) \<in> measure (\<lambda>(ks, db). length db)"
    by simp
qed

declare cascade.simps [simp del]

text \<open>
  \<^verbatim>\<open>DELETE FROM rel WHERE cond\<close>: the rows of the table that pass and satisfy the condition
  are deleted, and the deletion cascades.
\<close>

definition delete_from ::
  "role \<Rightarrow> (string \<Rightarrow> 'u option) \<Rightarrow> settings \<Rightarrow> relation \<Rightarrow> ('u row \<Rightarrow> bool) \<Rightarrow> 'u database
    \<Rightarrow> sql_error + 'u database" where
  "delete_from rl uuid_in st rel cond db =
     (case select_where rl uuid_in st cond (table_rows rel db) of
        Inl e \<Rightarrow> Inl e
      | Inr hit \<Rightarrow> Inr (cascade (map key_of hit) (filter (\<lambda>r. r \<notin> set hit) db)))"

subsection \<open>The tenant context as the policies read it\<close>

text \<open>
  The context of a request reaches the policies as the two settings
  \<^verbatim>\<open>app.current_tenant_id\<close> and \<^verbatim>\<open>app.current_user_id\<close>. A context is installed when the
  setting is there and is the text of a UUID.
\<close>

definition installed :: "(string \<Rightarrow> 'u option) \<Rightarrow> settings \<Rightarrow> string \<Rightarrow> 'u option" where
  "installed uuid_in st setting_name =
     (case st setting_name of None \<Rightarrow> None | Some t \<Rightarrow> uuid_in t)"

text \<open>Whether the installed context is the one a row of a tenant-scoped table belongs to.\<close>

fun context_matches :: "(string \<Rightarrow> 'u option) \<Rightarrow> settings \<Rightarrow> 'u row \<Rightarrow> bool" where
  "context_matches uuid_in st (In_tenants r) = True"
| "context_matches uuid_in st (In_users r) =
     (installed uuid_in st ''app.current_tenant_id'' = Some (users_row.tenant_id r))"
| "context_matches uuid_in st (In_refresh_tokens r) =
     (installed uuid_in st ''app.current_user_id'' = Some (refresh_tokens_row.user_id r))"
| "context_matches uuid_in st (In_datasets r) =
     (installed uuid_in st ''app.current_tenant_id'' = Some (datasets_row.tenant_id r))"
| "context_matches uuid_in st (In_dataset_rows r) =
     (installed uuid_in st ''app.current_tenant_id'' = Some (dataset_rows_row.tenant_id r))"

text \<open>
  The tenant that owns a row: its \<^verbatim>\<open>tenant_id\<close>, and for a refresh token the tenant of the
  user that \<^verbatim>\<open>user_id\<close> references in the \<^verbatim>\<open>users\<close> table.
\<close>

fun owner_tenant :: "'u users_row list \<Rightarrow> 'u row \<Rightarrow> 'u option" where
  "owner_tenant us (In_tenants r) = Some (tenants_row.id r)"
| "owner_tenant us (In_users r) = Some (users_row.tenant_id r)"
| "owner_tenant us (In_refresh_tokens r) =
     map_option users_row.tenant_id
       (find (\<lambda>u. users_row.id u = refresh_tokens_row.user_id r) us)"
| "owner_tenant us (In_datasets r) = Some (datasets_row.tenant_id r)"
| "owner_tenant us (In_dataset_rows r) = Some (dataset_rows_row.tenant_id r)"

text \<open>The context resolved for the token of user \<open>a\<close>: both settings carry \<open>a\<close>'s identity.\<close>

definition resolved_for :: "(string \<Rightarrow> 'u option) \<Rightarrow> settings \<Rightarrow> 'u users_row \<Rightarrow> bool" where
  "resolved_for uuid_in st a =
     (installed uuid_in st ''app.current_tenant_id'' = Some (users_row.tenant_id a) \<and>
      installed uuid_in st ''app.current_user_id'' = Some (users_row.id a))"

section \<open>The Refresh Rotator\<close>

text \<open>
  Modelled from the spec: the server's \<^verbatim>\<open>rotate\<close>, \<^verbatim>\<open>revoke\<close> and its handler of
  \<^verbatim>\<open>POST /auth/logout\<close> are not among the source files; only the table \<^verbatim>\<open>refresh_tokens\<close>
  and the client's calls are. The definitions of this section follow sections 3, 4.3 and 6 of
  the specification. The table has no column for the state of a record, and the specification
  leaves open whether a record is invalidated by deleting or by marking it, so the state is
  kept beside the row.
\<close>

datatype rt_status = ISSUED | ACTIVE | ROTATED | EXPIRED | REVOKED

text \<open>
  Modelled from the spec: the persisted refresh tokens, each row of \<^verbatim>\<open>refresh_tokens\<close> with
  the state of its record.
\<close>

type_synonym 'u token_store = "('u refresh_tokens_row \<times> rt_status) list"

text \<open>Modelled from the spec: the two failures that the contract of \<^verbatim>\<open>rotate\<close> names.\<close>

datatype rotate_failure = InvalidToken | Expired

text \<open>
  Modelled from the spec: the outcome of \<^verbatim>\<open>rotate\<close>: the new access token and the new raw
  refresh token, a failure, or a transaction that did not commit.
\<close>

datatype rotate_outcome =
    Rotated string string
  | Fails rotate_failure
  | Aborted

text \<open>Modelled from the spec: a record can still be used when it is in no terminal state.\<close>

definition usable :: "rt_status \<Rightarrow> bool" where
  "usable s = (s = ISSUED \<or> s = ACTIVE)"

text \<open>Modelled from the spec: the look-up of a record by the hash of the raw token.\<close>

definition lookup_token ::
  "string \<Rightarrow> 'u token_store \<Rightarrow> ('u refresh_tokens_row \<times> rt_status) option" where
  "lookup_token h store = find (\<lambda>e. token_hash (fst e) = h) store"

text \<open>
  Modelled from the spec: the two writes of a rotation: marking the records with a token hash
  \<open>ROTATED\<close>, and inserting a row as an \<open>ACTIVE\<close> record.
\<close>

datatype 'u statement =
    Mark_rotated string
  | Insert_active "'u refresh_tokens_row"

text \<open>
  Modelled from the spec: the effect of one write on the store. The insertion respects the
  \<^verbatim>\<open>PRIMARY KEY\<close> and \<^verbatim>\<open>UNIQUE\<close> constraints that the table declares.
\<close>

fun execute :: "'u statement \<Rightarrow> 'u token_store \<Rightarrow> sql_error + 'u token_store" where
  "execute (Mark_rotated h) store =
     Inr (map (\<lambda>e. if token_hash (fst e) = h then (fst e, ROTATED) else e) store)"
| "execute (Insert_active r) store =
     (if token_hash r \<in> set (map (\<lambda>e. token_hash (fst e)) store)
         \<or> refresh_tokens_row.id r \<in> set (map (\<lambda>e. refresh_tokens_row.id (fst e)) store)
      then Inl Unique_violation
      else Inr (store @ [(r, ACTIVE)]))"

text \<open>Modelled from the spec: writes in sequence, stopping at the first error.\<close>

fun execute_all :: "'u statement list \<Rightarrow> 'u token_store \<Rightarrow> sql_error + 'u token_store" where
  "execute_all [] store = Inr store"
| "execute_all (q # qs) store =
     (case execute q store of Inl e \<Rightarrow> Inl e | Inr store' \<Rightarrow> execute_all qs store')"

text \<open>
  Modelled from the spec: one transaction. \<open>interrupt = Some k\<close> is a crash after \<open>k\<close> of its
  statements and before the commit. The result is the store that persists, and whether
  the transaction committed.
\<close>

definition transaction ::
  "'u statement list \<Rightarrow> nat option \<Rightarrow> 'u token_store \<Rightarrow> 'u token_store \<times> bool" where
  "transaction qs interrupt store =
     (case interrupt of
        Some k \<Rightarrow> (store, False)
      | None \<Rightarrow> (case execute_all qs store of
                   Inl e \<Rightarrow> (store, False)
                 | Inr store' \<Rightarrow> (store', True)))"

text \<open>
  Modelled from the spec: what a call of \<^verbatim>\<open>rotate\<close> depends on besides the token and the
  store: the hash function, the time of the call, the lifetime of a refresh token, the
  identifier and the random raw token of the successor, and the access token minted for a
  user.
\<close>

record 'u rotator =
  hash :: "string \<Rightarrow> string"
  now :: nat
  refreshTokenTTL :: nat
  new_id :: 'u
  new_raw :: string
  issueAccessToken :: "'u \<Rightarrow> string"

text \<open>
  Modelled from the spec: the record that succeeds \<open>r\<close>: a new row of the same user with the
  hash of the new raw token, expiring after the lifetime of a refresh token.
\<close>

definition successor :: "'u rotator \<Rightarrow> 'u refresh_tokens_row \<Rightarrow> 'u refresh_tokens_row" where
  "successor env r =
     \<lparr>refresh_tokens_row.id = new_id env,
      user_id = refresh_tokens_row.user_id r,
      token_hash = hash env (new_raw env),
      expires_at = now env + refreshTokenTTL env,
      created_at = Some (now env)\<rparr>"

text \<open>
  Modelled from the spec: \<^verbatim>\<open>rotate(rawToken)\<close>. An unknown or already invalidated token fails
  with \<open>InvalidToken\<close>, one past \<^verbatim>\<open>expires_at\<close> with \<open>Expired\<close>; otherwise the record is marked
  \<open>ROTATED\<close> and the successor of the same user is inserted \<open>ACTIVE\<close>, in one transaction.
\<close>

definition rotate ::
  "'u rotator \<Rightarrow> nat option \<Rightarrow> string \<Rightarrow> 'u token_store \<Rightarrow> 'u token_store \<times> rotate_outcome" where
  "rotate env interrupt rawToken store =
     (case lookup_token (hash env rawToken) store of
        None \<Rightarrow> (store, Fails InvalidToken)
      | Some (r, s) \<Rightarrow>
          if \<not> usable s then (store, Fails (if s = EXPIRED then Expired else InvalidToken))
          else if expires_at r < now env then (store, Fails Expired)
          else
            (case transaction [Mark_rotated (token_hash r), Insert_active (successor env r)]
                    interrupt store of
               (store', committed) \<Rightarrow>
                 (store',
                  if committed
                  then Rotated (issueAccessToken env (refresh_tokens_row.user_id r)) (new_raw env)
                  else Aborted)))"

text \<open>Modelled from the spec: the number of records of a store that can still be used.\<close>

definition usable_count :: "'u token_store \<Rightarrow> nat" where
  "usable_count store = length (filter (\<lambda>e. usable (snd e)) store)"

text \<open>
  Modelled from the spec: \<^verbatim>\<open>revoke(rawToken)\<close> marks the record of the token \<open>REVOKED\<close> and
  leaves a record that is already invalid, or a store without the token, as it is.
\<close>

definition revoke :: "(string \<Rightarrow> string) \<Rightarrow> string \<Rightarrow> 'u token_store \<Rightarrow> 'u token_store" where
  "revoke h rawToken store =
     map (\<lambda>e. if token_hash (fst e) = h rawToken \<and> usable (snd e) then (fst e, REVOKED) else e)
       store"

text \<open>
  Modelled from the spec: the handler of \<^verbatim>\<open>POST /auth/logout\<close>, given the refresh cookie of
  the request if it has one. It answers with status 204.
\<close>

definition auth_logout ::
  "(string \<Rightarrow> string) \<Rightarrow> string option \<Rightarrow> 'u token_store \<Rightarrow> 'u token_store \<times> nat" where
  "auth_logout h cookie store =
     (case cookie of
        None \<Rightarrow> (store, 204)
      | Some rawToken \<Rightarrow> (revoke h rawToken store, 204))"

section \<open>Properties of the API client\<close>

lemma request_interceptor_retry: "retry (request_interceptor s c) = retry c"
  by (simp add: request_interceptor_def)

lemma request_interceptor_url: "url (request_interceptor s c) = url c"
  by (simp add: request_interceptor_def)

lemma api_flagged: "retry c \<Longrightarrow> fst (snd (api replies refreshes s c)) = 1"
proof (cases replies)
  case Nil
  then show ?thesis by simp
next
  case (Cons r rs)
  assume "retry c"
  then show ?thesis using Cons
    by (cases r) (simp_all add: on_response_error_def request_interceptor_retry)
qed

lemma on_response_error_flags: "on_response_error e = Await_refresh c \<Longrightarrow> retry c"
  by (auto simp: on_response_error_def split: if_splits)

lemma refresh_fulfilled_retry: "refresh_fulfilled s c t = (s', c') \<Longrightarrow> retry c' = retry c"
  by (auto simp: refresh_fulfilled_def)

lemma api_sends: "fst (snd (api replies refreshes s c)) \<le> 2"
proof (cases replies)
  case Nil
  then show ?thesis by simp
next
  case (Cons r rs)
  show ?thesis
  proof (cases r)
    case Success
    then show ?thesis using Cons by simp
  next
    case (Failure st)
    show ?thesis
    proof (cases "on_response_error \<lparr>config = request_interceptor s c, status = st\<rparr>")
      case (Reject e)
      then show ?thesis using Cons Failure by simp
    next
      case (Await_refresh c1)
      then have fl: "retry c1" by (rule on_response_error_flags)
      show ?thesis
      proof (cases refreshes)
        case Nil
        then show ?thesis using Cons Failure Await_refresh by simp
      next
        case (Cons q qs)
        show ?thesis
        proof (cases q)
          case Refresh_error
          then show ?thesis using \<open>replies = r # rs\<close> Failure Await_refresh Cons by simp
        next
          case (Refresh_ok t)
          obtain s' c' where rf: "refresh_fulfilled s c1 t = (s', c')" by force
          then have "retry c'" using fl refresh_fulfilled_retry by blast
          then have "fst (snd (api rs qs s' c')) = 1" by (rule api_flagged)
          then show ?thesis using \<open>replies = r # rs\<close> Failure Await_refresh Cons Refresh_ok rf
            by (auto split: prod.splits)
        qed
      qed
    qed
  qed
qed

lemma auth_endpoints_excluded: "u \<in> set auth_endpoints \<Longrightarrow> isAuthEndpoint (c\<lparr>url := Some u\<rparr>)"
  by (auto simp: auth_endpoints_def isAuthEndpoint_def)

text \<open>
  Claim C6. A request that fails with an authorization failure is flagged and replayed at most
  once: whatever the server answers, a request is sent at most twice; a failure of a request
  that is already flagged is rejected without a refresh call; and a failure of a request whose
  URL is one of the authentication endpoints is rejected without a refresh call.
\<close>

theorem retried_at_most_once:
  "fst (snd (api replies refreshes s c)) \<le> 2
   \<and> (retry (config e) \<longrightarrow> on_response_error e = Reject e \<and> step s (Response_error e) = s)
   \<and> (isAuthEndpoint (config e) \<longrightarrow> on_response_error e = Reject e \<and> step s (Response_error e) = s)
   \<and> (\<forall>u \<in> set auth_endpoints. isAuthEndpoint (c\<lparr>url := Some u\<rparr>))
   \<and> (\<forall>c'. on_response_error e = Await_refresh c' \<longrightarrow> c' = (config e)\<lparr>retry := True\<rparr>)"
proof -
  have a: "fst (snd (api replies refreshes s c)) \<le> 2" by (rule api_sends)
  have b: "retry (config e) \<longrightarrow> on_response_error e = Reject e \<and> step s (Response_error e) = s"
    by (simp add: on_response_error_def)
  have c: "isAuthEndpoint (config e) \<longrightarrow> on_response_error e = Reject e \<and> step s (Response_error e) = s"
    by (simp add: on_response_error_def)
  have d: "\<forall>u \<in> set auth_endpoints. isAuthEndpoint (c\<lparr>url := Some u\<rparr>)"
    using auth_endpoints_excluded by blast
  have e: "\<forall>c'. on_response_error e = Await_refresh c' \<longrightarrow> c' = (config e)\<lparr>retry := True\<rparr>"
    by (auto simp: on_response_error_def split: if_splits)
  from a b c d e show ?thesis by blast
qed

theorem retried_at_most_once_witness:
  "fst (snd (api [Failure (Some 401), Failure (Some 401)] [Refresh_ok (Str ''t2'')]
       \<lparr>accessToken = Str ''t1'', pathname = Some ''/dashboard'', user = None,
        suspended = [], calls = []\<rparr>
       \<lparr>url = Some ''/datasets'', retry = False, Authorization = None\<rparr>)) = 2
   \<and> retry (config \<lparr>config = \<lparr>url = Some ''/datasets'', retry = True, Authorization = None\<rparr>,
                     status = Some 401\<rparr>)
   \<and> on_response_error \<lparr>config = \<lparr>url = Some ''/datasets'', retry = True, Authorization = None\<rparr>,
                     status = Some 401\<rparr>
      = Reject \<lparr>config = \<lparr>url = Some ''/datasets'', retry = True, Authorization = None\<rparr>,
                     status = Some 401\<rparr>
   \<and> ''/auth/refresh'' \<in> set auth_endpoints
   \<and> isAuthEndpoint \<lparr>url = Some ''/auth/refresh'', retry = False, Authorization = None\<rparr>"
  using retried_at_most_once
    [of "[Failure (Some 401), Failure (Some 401)]" "[Refresh_ok (Str ''t2'')]"
        "\<lparr>accessToken = Str ''t1'', pathname = Some ''/dashboard'', user = None,
          suspended = [], calls = []\<rparr>"
        "\<lparr>url = Some ''/datasets'', retry = False, Authorization = None\<rparr>"
        "\<lparr>config = \<lparr>url = Some ''/datasets'', retry = True, Authorization = None\<rparr>,
          status = Some 401\<rparr>"]
  by (simp add: on_response_error_def request_interceptor_def refresh_fulfilled_def
      setAccessToken_def truthy_def isAuthEndpoint_def auth_endpoints_def)

text \<open>
  What the \<^verbatim>\<open>catch\<close> branch does when the refresh call of a suspended handler fails: the
  access token is cleared, no further call is issued, and the browser is sent to \<^verbatim>\<open>/login\<close>
  when its path name does not contain \<^verbatim>\<open>/login\<close>.
\<close>

lemma refresh_failed_effect:
  assumes "i < length (suspended s)"
  shows "accessToken (step s (Refresh_failed i)) = Null
    \<and> calls (step s (Refresh_failed i)) = calls s
    \<and> (\<forall>p. pathname s = Some p \<and> \<not> js_includes p ''/login'' \<longrightarrow>
          pathname (step s (Refresh_failed i)) = Some ''/login'')
    \<and> (\<forall>p. pathname s = Some p \<and> js_includes p ''/login'' \<longrightarrow>
          pathname (step s (Refresh_failed i)) = Some p)"
  using assms
  by (auto simp: refresh_rejected_def setAccessToken_def Let_def split: option.splits)

text \<open>
  Claim C7. The code at the input where it misses the claim: the browser shows the dataset
  with identifier \<^verbatim>\<open>login\<close>, at \<^verbatim>\<open>/datasets/login\<close>, and the refresh for its request fails. The
  access token is cleared and no call is issued, but the browser is not sent to the login
  page: the guard that the code comments as "not already on login page" tests whether the
  path name contains \<^verbatim>\<open>/login\<close>.
\<close>

theorem refresh_failure_not_routed:
  "accessToken (step \<lparr>accessToken = Str ''t1'', pathname = Some ''/datasets/login'',
        user = None,
        suspended = [\<lparr>url = Some ''/datasets/login'', retry = True,
                     Authorization = Some ''Bearer t1''\<rparr>],
        calls = [Post_auth_refresh]\<rparr> (Refresh_failed 0)) = Null
   \<and> pathname (step \<lparr>accessToken = Str ''t1'', pathname = Some ''/datasets/login'',
        user = None,
        suspended = [\<lparr>url = Some ''/datasets/login'', retry = True,
                     Authorization = Some ''Bearer t1''\<rparr>],
        calls = [Post_auth_refresh]\<rparr> (Refresh_failed 0)) = Some ''/datasets/login''
   \<and> calls (step \<lparr>accessToken = Str ''t1'', pathname = Some ''/datasets/login'',
        user = None,
        suspended = [\<lparr>url = Some ''/datasets/login'', retry = True,
                     Authorization = Some ''Bearer t1''\<rparr>],
        calls = [Post_auth_refresh]\<rparr> (Refresh_failed 0)) = [Post_auth_refresh]"
  by (simp add: refresh_rejected_def setAccessToken_def)

text \<open>
  Claim C10. The registration form issues its request only when the password equals its
  confirmation and has at least 8 code units; when a check fails, no request is issued and
  nothing but the error message of the page changes.
\<close>

theorem register_validation:
  "(snd (handleSubmit p) \<noteq> None \<longrightarrow>
      register_page.password p = confirmPassword p \<and> 8 \<le> length (register_page.password p))
   \<and> (register_page.password p \<noteq> confirmPassword p \<longrightarrow>
      handleSubmit p = (p\<lparr>error := ''Passwords do not match''\<rparr>, None))
   \<and> (register_page.password p = confirmPassword p \<and> length (register_page.password p) < 8 \<longrightarrow>
      handleSubmit p = (p\<lparr>error := ''Password must be at least 8 characters''\<rparr>, None))"
  by (simp add: handleSubmit_def Let_def)

theorem register_validation_witness:
  "register_page.password \<lparr>register_page.email = ''a@acme.com'', password = ''short'',
       confirmPassword = ''short'', tenantId = ''t'', tenants = [], error = ''old'',
       isLoading = False\<rparr> =
     confirmPassword \<lparr>register_page.email = ''a@acme.com'', password = ''short'',
       confirmPassword = ''short'', tenantId = ''t'', tenants = [], error = ''old'',
       isLoading = False\<rparr>
   \<and> handleSubmit \<lparr>register_page.email = ''a@acme.com'', password = ''short'',
       confirmPassword = ''short'', tenantId = ''t'', tenants = [], error = ''old'',
       isLoading = False\<rparr> =
     (\<lparr>register_page.email = ''a@acme.com'', password = ''short'',
       confirmPassword = ''short'', tenantId = ''t'', tenants = [],
       error = ''Password must be at least 8 characters'', isLoading = False\<rparr>, None)
   \<and> snd (handleSubmit \<lparr>register_page.email = ''a@acme.com'', password = ''password123'',
       confirmPassword = ''password123'', tenantId = ''t'', tenants = [], error = ''old'',
       isLoading = False\<rparr>) \<noteq> None"
  using register_validation
    [of "\<lparr>register_page.email = ''a@acme.com'', password = ''short'',
       confirmPassword = ''short'', tenantId = ''t'', tenants = [], error = ''old'',
       isLoading = False\<rparr>"]
  by (simp add: handleSubmit_def Let_def)

lemma step_eligible:
  assumes "status e = Some 401" "\<not> retry (config e)" "\<not> isAuthEndpoint (config e)"
  shows "step s (Response_error e) =
     s\<lparr>suspended := suspended s @ [(config e)\<lparr>retry := True\<rparr>],
       calls := calls s @ [Post_auth_refresh]\<rparr>"
  using assms by (simp add: on_response_error_def)

lemma run_eligible:
  "\<forall>e \<in> set es. status e = Some 401 \<and> \<not> retry (config e) \<and> \<not> isAuthEndpoint (config e) \<Longrightarrow>
   outstanding_refreshes (run s (map Response_error es)) = outstanding_refreshes s + length es
   \<and> refresh_calls (run s (map Response_error es)) = refresh_calls s + length es"
proof (induction es arbitrary: s)
  case Nil
  then show ?case by (simp add: run_def)
next
  case (Cons e es)
  let ?s1 = "step s (Response_error e)"
  from Cons.prems have el: "status e = Some 401" "\<not> retry (config e)" "\<not> isAuthEndpoint (config e)"
    by simp_all
  have s1: "outstanding_refreshes ?s1 = Suc (outstanding_refreshes s)"
       "refresh_calls ?s1 = Suc (refresh_calls s)"
    by (simp_all add: step_eligible [OF el] outstanding_refreshes_def refresh_calls_def
        del: step.simps)
  from Cons.prems have "\<forall>e \<in> set es. status e = Some 401 \<and> \<not> retry (config e) \<and> \<not> isAuthEndpoint (config e)"
    by simp
  from Cons.IH [OF this, of ?s1] s1 show ?case
    by (simp add: run_def)
qed

text \<open>
  Claim C1, as amended. The client keeps no record of a refresh that is in flight: every
  request that fails with status 401, is not flagged and is no authentication endpoint issues
  a refresh call of its own, so \<open>n\<close> such failures that arrive before any refresh answer
  leave \<open>n\<close> more refresh exchanges outstanding.
\<close>

theorem refresh_for_every_failure:
  assumes "\<forall>e \<in> set es. status e = Some 401 \<and> \<not> retry (config e) \<and> \<not> isAuthEndpoint (config e)"
  shows "outstanding_refreshes (run s (map Response_error es)) = outstanding_refreshes s + length es
   \<and> refresh_calls (run s (map Response_error es)) = refresh_calls s + length es"
  using assms by (rule run_eligible)

text \<open>
  Claim C1 as stated fails: two requests of one session fail with status 401 before any
  refresh answer arrives, and two refresh exchanges are outstanding, each from its own call
  to \<^verbatim>\<open>/auth/refresh\<close>.
\<close>

theorem single_flight_counterexample:
  "outstanding_refreshes
     (run \<lparr>accessToken = Str ''t1'', pathname = Some ''/dashboard'', user = None,
           suspended = [], calls = []\<rparr>
        [Response_error \<lparr>config = \<lparr>url = Some ''/datasets'', retry = False,
                                  Authorization = Some ''Bearer t1''\<rparr>, status = Some 401\<rparr>,
         Response_error \<lparr>config = \<lparr>url = Some ''/datasets/7'', retry = False,
                                  Authorization = Some ''Bearer t1''\<rparr>, status = Some 401\<rparr>]) = 2
   \<and> calls
     (run \<lparr>accessToken = Str ''t1'', pathname = Some ''/dashboard'', user = None,
           suspended = [], calls = []\<rparr>
        [Response_error \<lparr>config = \<lparr>url = Some ''/datasets'', retry = False,
                                  Authorization = Some ''Bearer t1''\<rparr>, status = Some 401\<rparr>,
         Response_error \<lparr>config = \<lparr>url = Some ''/datasets/7'', retry = False,
                                  Authorization = Some ''Bearer t1''\<rparr>, status = Some 401\<rparr>])
     = [Post_auth_refresh, Post_auth_refresh]"
  by (simp add: run_def on_response_error_def isAuthEndpoint_def outstanding_refreshes_def)

theorem refresh_for_every_failure_witness:
  "status \<lparr>config = \<lparr>url = Some ''/datasets'', retry = False,
                          Authorization = Some ''Bearer t1''\<rparr>, status = Some 401\<rparr> = Some 401
   \<and> status \<lparr>config = \<lparr>url = Some ''/datasets/7'', retry = False,
                          Authorization = Some ''Bearer t1''\<rparr>, status = Some 401\<rparr> = Some 401
   \<and> refresh_calls
     (run \<lparr>accessToken = Str ''t1'', pathname = Some ''/dashboard'', user = None,
           suspended = [], calls = []\<rparr>
        (map Response_error
          [\<lparr>config = \<lparr>url = Some ''/datasets'', retry = False,
                          Authorization = Some ''Bearer t1''\<rparr>, status = Some 401\<rparr>,
           \<lparr>config = \<lparr>url = Some ''/datasets/7'', retry = False,
                          Authorization = Some ''Bearer t1''\<rparr>, status = Some 401\<rparr>])) = 2"
  using refresh_for_every_failure
    [of "[\<lparr>config = \<lparr>url = Some ''/datasets'', retry = False,
                          Authorization = Some ''Bearer t1''\<rparr>, status = Some 401\<rparr>,
          \<lparr>config = \<lparr>url = Some ''/datasets/7'', retry = False,
                          Authorization = Some ''Bearer t1''\<rparr>, status = Some 401\<rparr>]"
        "\<lparr>accessToken = Str ''t1'', pathname = Some ''/dashboard'', user = None,
           suspended = [], calls = []\<rparr>"]
  by (simp add: isAuthEndpoint_def refresh_calls_def)

text \<open>
  Claim C4, as amended. A refresh answer that arrives after the logout installs the access
  token it carries and replays the original request with that token in its \<^verbatim>\<open>Authorization\<close>
  header; the user state of \<^verbatim>\<open>AuthProvider\<close> stays cleared. A refresh that fails after the
  logout leaves the token cleared.
\<close>

theorem late_refresh_after_logout:
  assumes "i < length (suspended s)"
  shows "accessToken (step (step s Logout) (Refresh_resolved i newToken)) = newToken
    \<and> user (step (step s Logout) (Refresh_resolved i newToken)) = None
    \<and> calls (step (step s Logout) (Refresh_resolved i newToken))
        = calls s @ [Api ((suspended s ! i)\<lparr>Authorization := Some (bearer newToken)\<rparr>)]
    \<and> accessToken (step (step s Logout) (Refresh_failed i)) = Null
    \<and> user (step (step s Logout) (Refresh_failed i)) = None"
  using assms
  by (simp add: logout_def setAccessToken_def refresh_fulfilled_def refresh_rejected_def
      request_interceptor_def Let_def split: option.splits)

text \<open>
  Claim C4 as stated fails: a request fails with status 401, the user logs out while the
  refresh is in flight, and the refresh answer then installs its token in the cleared session.
\<close>

theorem late_refresh_counterexample:
  "accessToken
     (run \<lparr>accessToken = Str ''t1'', pathname = Some ''/dashboard'',
           user = Some \<lparr>user_data.user_id = ''u'', user_data.tenant_id = ''t'', user_data.email = ''a@acme.com''\<rparr>,
           suspended = [], calls = []\<rparr>
        [Response_error \<lparr>config = \<lparr>url = Some ''/datasets'', retry = False,
                                  Authorization = Some ''Bearer t1''\<rparr>, status = Some 401\<rparr>,
         Logout,
         Refresh_resolved 0 (Str ''t2'')]) = Str ''t2''"
  by (simp add: run_def on_response_error_def isAuthEndpoint_def logout_def setAccessToken_def
      refresh_fulfilled_def)

theorem late_refresh_after_logout_witness:
  "(0::nat) < length (suspended \<lparr>accessToken = Str ''t1'', pathname = Some ''/dashboard'',
        user = Some \<lparr>user_data.user_id = ''u'', user_data.tenant_id = ''t'', user_data.email = ''a@acme.com''\<rparr>,
        suspended = [\<lparr>url = Some ''/datasets'', retry = True, Authorization = None\<rparr>],
        calls = [Post_auth_refresh]\<rparr>)
   \<and> accessToken (step (step \<lparr>accessToken = Str ''t1'', pathname = Some ''/dashboard'',
        user = Some \<lparr>user_data.user_id = ''u'', user_data.tenant_id = ''t'', user_data.email = ''a@acme.com''\<rparr>,
        suspended = [\<lparr>url = Some ''/datasets'', retry = True, Authorization = None\<rparr>],
        calls = [Post_auth_refresh]\<rparr> Logout) (Refresh_resolved 0 (Str ''t2''))) = Str ''t2''
   \<and> calls (step (step \<lparr>accessToken = Str ''t1'', pathname = Some ''/dashboard'',
        user = Some \<lparr>user_data.user_id = ''u'', user_data.tenant_id = ''t'', user_data.email = ''a@acme.com''\<rparr>,
        suspended = [\<lparr>url = Some ''/datasets'', retry = True, Authorization = None\<rparr>],
        calls = [Post_auth_refresh]\<rparr> Logout) (Refresh_resolved 0 (Str ''t2'')))
      = [Post_auth_refresh,
         Api \<lparr>url = Some ''/datasets'', retry = True, Authorization = Some ''Bearer t2''\<rparr>]"
  using late_refresh_after_logout
    [of 0 "\<lparr>accessToken = Str ''t1'', pathname = Some ''/dashboard'',
        user = Some \<lparr>user_data.user_id = ''u'', user_data.tenant_id = ''t'', user_data.email = ''a@acme.com''\<rparr>,
        suspended = [\<lparr>url = Some ''/datasets'', retry = True, Authorization = None\<rparr>],
        calls = [Post_auth_refresh]\<rparr>" "Str ''t2''"]
  by (simp add: bearer_def)

section \<open>Properties of row security\<close>

lemma column_eq_setting_True:
  "(column_eq_setting uuid_in st col n = Inr (Some True)) = (installed uuid_in st n = Some col)"
  by (auto simp: column_eq_setting_def current_setting_def cast_uuid_def sql_eq_def installed_def
      split: option.splits sum.splits)

lemma applies_row_level_security:
  "row_security_applies rl rel \<Longrightarrow> row_level_security rel"
  by (cases rl) simp_all

lemma passes_iff_context:
  assumes "row_security_applies rl (relation_of r)"
  shows "(passes rl uuid_in st r = Inr True) = context_matches uuid_in st r"
proof -
  have "row_level_security (relation_of r)"
    using assms by (rule applies_row_level_security)
  then show ?thesis using assms
    by (cases r)
      (auto simp: passes_def users_tenant_isolation_def datasets_tenant_isolation_def
        dataset_rows_tenant_isolation_def refresh_tokens_user_isolation_def
        column_eq_setting_True [symmetric] split: sum.splits)
qed

lemma passes_exempt:
  "\<not> row_security_applies rl (relation_of r) \<Longrightarrow> passes rl uuid_in st r = Inr True"
  by (simp add: passes_def)

lemma select_where_filter:
  "select_where rl uuid_in st cond rs = Inr out \<Longrightarrow>
     out = filter (\<lambda>r. passes rl uuid_in st r = Inr True \<and> cond r) rs"
proof (induction rs arbitrary: out)
  case Nil
  then show ?case by simp
next
  case (Cons x xs)
  then show ?case
    by (auto split: sum.splits if_splits)
qed

lemma update_where_sound:
  "update_where rl uuid_in st cond f rs = Inr rs' \<Longrightarrow> i < length rs \<Longrightarrow> rs' ! i \<noteq> rs ! i \<Longrightarrow>
     passes rl uuid_in st (rs ! i) = Inr True \<and> cond (rs ! i) \<and> rs' ! i = f (rs ! i)
     \<and> passes rl uuid_in st (f (rs ! i)) = Inr True"
proof (induction rs arbitrary: rs' i)
  case Nil
  then show ?case by simp
next
  case (Cons x xs)
  from Cons.prems(1) obtain ok rest where
    p: "passes rl uuid_in st x = Inr ok" and
    u: "update_where rl uuid_in st cond f xs = Inr rest" and
    h: "rs' = (if ok \<and> cond x then f x else x) # rest" and
    c: "ok \<and> cond x \<longrightarrow> passes rl uuid_in st (f x) = Inr True"
    by (auto split: sum.splits if_splits)
  show ?case
  proof (cases i)
    case 0
    then show ?thesis using Cons.prems(3) p h c by (auto split: if_splits)
  next
    case (Suc n)
    then have "n < length xs" "rest ! n \<noteq> xs ! n"
      using Cons.prems(2,3) h by simp_all
    from Cons.IH [OF u this] show ?thesis using Suc h by simp
  qed
qed

lemma insert_row_iff:
  "(insert_row rl uuid_in st r rs = Inr rs') =
     (passes rl uuid_in st r = Inr True \<and> rs' = rs @ [r])"
  by (auto simp: insert_row_def split: sum.splits if_splits)

lemma cascade_unfold:
  "list_ex (referencing ks) db \<Longrightarrow>
     cascade ks db = cascade (map key_of (filter (referencing ks) db))
                       (filter (\<lambda>r. \<not> referencing ks r) db)"
  "\<not> list_ex (referencing ks) db \<Longrightarrow> cascade ks db = db"
  by (subst cascade.simps, simp)+

lemma cascade_subset: "set (cascade ks db) \<subseteq> set db"
proof (induction ks db rule: cascade.induct)
  case (1 ks db)
  show ?case
  proof (cases "list_ex (referencing ks) db")
    case True
    from "1" [OF True] show ?thesis
      unfolding cascade_unfold(1) [OF True] by auto
  next
    case False
    then show ?thesis by (simp add: cascade_unfold(2))
  qed
qed

lemma cascade_removed:
  "r \<in> set db \<Longrightarrow> r \<notin> set (cascade ks db) \<Longrightarrow>
     \<exists>k \<in> set (parent_keys r).
        k \<in> set ks \<or> (\<exists>p \<in> set db. p \<notin> set (cascade ks db) \<and> key_of p = k)"
proof (induction ks db rule: cascade.induct)
  case (1 ks db)
  show ?case
  proof (cases "list_ex (referencing ks) db")
    case False
    then show ?thesis using "1.prems" by (simp add: cascade_unfold(2))
  next
    case True
    let ?hit = "filter (referencing ks) db"
    let ?rest = "filter (\<lambda>r. \<not> referencing ks r) db"
    have eq: "cascade ks db = cascade (map key_of ?hit) ?rest"
      by (rule cascade_unfold(1) [OF True])
    have sub: "set (cascade ks db) \<subseteq> set ?rest"
      unfolding eq by (rule cascade_subset)
    show ?thesis
    proof (cases "referencing ks r")
      case True
      then show ?thesis by (auto simp: referencing_def list_ex_iff)
    next
      case False
      then have "r \<in> set ?rest" using "1.prems"(1) by simp
      moreover have "r \<notin> set (cascade (map key_of ?hit) ?rest)"
        using "1.prems"(2) eq by simp
      ultimately obtain k where k: "k \<in> set (parent_keys r)"
        and alt: "k \<in> set (map key_of ?hit)
          \<or> (\<exists>p \<in> set ?rest. p \<notin> set (cascade (map key_of ?hit) ?rest) \<and> key_of p = k)"
        using "1.IH" [OF True] by blast
      from alt show ?thesis
      proof
        assume "k \<in> set (map key_of ?hit)"
        then obtain h where h: "h \<in> set db" "referencing ks h" "key_of h = k" by auto
        then have "h \<notin> set (cascade ks db)" using sub by auto
        with h k show ?thesis by blast
      next
        assume "\<exists>p \<in> set ?rest. p \<notin> set (cascade (map key_of ?hit) ?rest) \<and> key_of p = k"
        then obtain p where "p \<in> set db" "p \<notin> set (cascade ks db)" "key_of p = k"
          using eq by auto
        with k show ?thesis by blast
      qed
    qed
  qed
qed

lemma cascade_no_keys: "cascade [] db = db"
proof -
  have "\<not> list_ex (referencing []) db"
    by (simp add: list_ex_iff referencing_def)
  then show ?thesis by (rule cascade_unfold(2))
qed

lemma delete_from_removed:
  assumes "delete_from rl uuid_in st rel cond db = Inr db'" "r \<in> set db" "r \<notin> set db'"
  shows "(relation_of r = rel \<and> cond r \<and> passes rl uuid_in st r = Inr True)
    \<or> (\<exists>p. p \<in> set db \<and> p \<notin> set db' \<and> key_of p \<in> set (parent_keys r))"
proof -
  obtain hit where sel: "select_where rl uuid_in st cond (table_rows rel db) = Inr hit"
    and db': "db' = cascade (map key_of hit) (filter (\<lambda>r. r \<notin> set hit) db)"
    using assms(1) by (auto simp: delete_from_def split: sum.splits)
  let ?rest = "filter (\<lambda>r. r \<notin> set hit) db"
  have hit: "hit = filter (\<lambda>r. passes rl uuid_in st r = Inr True \<and> cond r) (table_rows rel db)"
    using sel by (rule select_where_filter)
  have sub: "set db' \<subseteq> set ?rest" unfolding db' by (rule cascade_subset)
  show ?thesis
  proof (cases "r \<in> set hit")
    case True
    then show ?thesis using hit by (auto simp: table_rows_def)
  next
    case False
    then have "r \<in> set ?rest" using assms(2) by simp
    then obtain k where k: "k \<in> set (parent_keys r)"
      and alt: "k \<in> set (map key_of hit) \<or> (\<exists>p \<in> set ?rest. p \<notin> set db' \<and> key_of p = k)"
      using cascade_removed [of r ?rest "map key_of hit"] assms(3) db' by blast
    from alt show ?thesis
    proof
      assume "k \<in> set (map key_of hit)"
      then obtain h where h: "h \<in> set hit" "key_of h = k" by auto
      then have "h \<in> set db" using hit by (auto simp: table_rows_def)
      moreover have "h \<notin> set db'" using sub h(1) by auto
      ultimately show ?thesis using h k by blast
    next
      assume "\<exists>p \<in> set ?rest. p \<notin> set db' \<and> key_of p = k"
      then show ?thesis using k by auto
    qed
  qed
qed

lemma cascade_kept:
  "r \<in> set (cascade ks db) \<Longrightarrow>
     \<not> referencing ks r
     \<and> (\<forall>p \<in> set db. p \<notin> set (cascade ks db) \<longrightarrow> key_of p \<notin> set (parent_keys r))"
proof (induction ks db rule: cascade.induct)
  case (1 ks db)
  show ?case
  proof (cases "list_ex (referencing ks) db")
    case False
    then show ?thesis using "1.prems" by (auto simp: cascade_unfold(2) list_ex_iff)
  next
    case True
    let ?hit = "filter (referencing ks) db"
    let ?rest = "filter (\<lambda>r. \<not> referencing ks r) db"
    have eq: "cascade ks db = cascade (map key_of ?hit) ?rest"
      by (rule cascade_unfold(1) [OF True])
    have r: "r \<in> set (cascade (map key_of ?hit) ?rest)"
      using "1.prems" eq by simp
    from "1.IH" [OF True r] have
      nr: "\<not> referencing (map key_of ?hit) r" and
      ih: "\<forall>p \<in> set ?rest. p \<notin> set (cascade (map key_of ?hit) ?rest)
             \<longrightarrow> key_of p \<notin> set (parent_keys r)"
      by simp_all
    have "r \<in> set ?rest" using r cascade_subset by blast
    then have a: "\<not> referencing ks r" by simp
    have b: "\<forall>p \<in> set db. p \<notin> set (cascade ks db) \<longrightarrow> key_of p \<notin> set (parent_keys r)"
    proof (intro ballI impI)
      fix p
      assume p: "p \<in> set db" "p \<notin> set (cascade ks db)"
      show "key_of p \<notin> set (parent_keys r)"
      proof (cases "referencing ks p")
        case True
        then have "key_of p \<in> set (map key_of ?hit)" using p(1) by simp
        then show ?thesis using nr by (auto simp: referencing_def list_ex_iff)
      next
        case False
        then have "p \<in> set ?rest" using p(1) by simp
        then show ?thesis using ih p(2) eq by simp
      qed
    qed
    from a b show ?thesis by simp
  qed
qed

lemma delete_from_kept:
  assumes "delete_from rl uuid_in st rel cond db = Inr db'" "r \<in> set db'"
  shows "r \<in> set db
    \<and> \<not> (relation_of r = rel \<and> cond r \<and> passes rl uuid_in st r = Inr True)
    \<and> (\<forall>p. p \<in> set db \<and> p \<notin> set db' \<longrightarrow> key_of p \<notin> set (parent_keys r))"
proof -
  obtain hit where sel: "select_where rl uuid_in st cond (table_rows rel db) = Inr hit"
    and db': "db' = cascade (map key_of hit) (filter (\<lambda>r. r \<notin> set hit) db)"
    using assms(1) by (auto simp: delete_from_def split: sum.splits)
  let ?rest = "filter (\<lambda>r. r \<notin> set hit) db"
  have hit: "hit = filter (\<lambda>r. passes rl uuid_in st r = Inr True \<and> cond r) (table_rows rel db)"
    using sel by (rule select_where_filter)
  have rr: "r \<in> set ?rest" using assms(2) db' cascade_subset by blast
  then have a: "r \<in> set db" and nh: "r \<notin> set hit" by simp_all
  from nh a have b: "\<not> (relation_of r = rel \<and> cond r \<and> passes rl uuid_in st r = Inr True)"
    using hit by (auto simp: table_rows_def)
  from cascade_kept [of r "map key_of hit" ?rest] assms(2) db' have
    nr: "\<not> referencing (map key_of hit) r" and
    kp: "\<forall>p \<in> set ?rest. p \<notin> set db' \<longrightarrow> key_of p \<notin> set (parent_keys r)"
    by simp_all
  have c: "\<forall>p. p \<in> set db \<and> p \<notin> set db' \<longrightarrow> key_of p \<notin> set (parent_keys r)"
  proof (intro allI impI)
    fix p
    assume p: "p \<in> set db \<and> p \<notin> set db'"
    show "key_of p \<notin> set (parent_keys r)"
    proof (cases "p \<in> set hit")
      case True
      then have "key_of p \<in> set (map key_of hit)" by simp
      then show ?thesis using nr by (auto simp: referencing_def list_ex_iff)
    next
      case False
      then have "p \<in> set ?rest" using p by simp
      then show ?thesis using kp p by simp
    qed
  qed
  from a b c show ?thesis by simp
qed

lemma find_users_id:
  "distinct (map users_row.id us) \<Longrightarrow> a \<in> set us \<Longrightarrow>
     find (\<lambda>u. users_row.id u = users_row.id a) us = Some a"
  by (induction us) (auto simp: image_iff)

lemma other_tenant_no_match:
  assumes "resolved_for uuid_in st a" "a \<in> set us" "distinct (map users_row.id us)"
    "owner_tenant us r = Some t2" "t2 \<noteq> users_row.tenant_id a"
    "row_level_security (relation_of r)"
  shows "\<not> context_matches uuid_in st r"
proof (cases r)
  case (In_refresh_tokens k)
  show ?thesis
  proof
    assume "context_matches uuid_in st r"
    then have "refresh_tokens_row.user_id k = users_row.id a"
      using assms(1) In_refresh_tokens by (simp add: resolved_for_def)
    then have "owner_tenant us r = Some (users_row.tenant_id a)"
      using In_refresh_tokens find_users_id [OF assms(3) assms(2)] by simp
    then show False using assms(4,5) by simp
  qed
qed (use assms in \<open>auto simp: resolved_for_def\<close>)

lemma resolved_no_error:
  assumes "resolved_for uuid_in st a" "row_security_applies rl (relation_of r)"
  shows "passes rl uuid_in st r = Inr (context_matches uuid_in st r)"
proof -
  have "row_level_security (relation_of r)"
    using assms(2) by (rule applies_row_level_security)
  then show ?thesis using assms
    by (cases r)
      (auto simp: passes_def resolved_for_def installed_def users_tenant_isolation_def
        datasets_tenant_isolation_def dataset_rows_tenant_isolation_def
        refresh_tokens_user_isolation_def column_eq_setting_def current_setting_def
        cast_uuid_def sql_eq_def split: option.splits)
qed

text \<open>
  Claim C2, as amended. For a row of a table whose row security applies to the role of the
  statement, whatever the condition of the statement: a \<^verbatim>\<open>SELECT\<close> returns the row, an
  \<^verbatim>\<open>INSERT\<close> accepts it, an \<^verbatim>\<open>UPDATE\<close> rewrites it, and a \<^verbatim>\<open>DELETE\<close> on its table removes it,
  only when the installed context matches it: the tenant setting is the row's \<^verbatim>\<open>tenant_id\<close>,
  for a refresh token the user setting is the row's \<^verbatim>\<open>user_id\<close>; the row that an \<^verbatim>\<open>UPDATE\<close>
  writes must match as well. Besides the rows it targets, a \<^verbatim>\<open>DELETE\<close> removes exactly the rows
  that reference a removed row, by cascade and without a policy check. Under the context resolved for a user of one tenant no
  row owned by another tenant passes, where user identifiers are unique as the primary key
  makes them.
\<close>

theorem tenant_isolation:
  assumes "row_security_applies rl (relation_of r)"
  shows
   "(\<forall>cond rs out. select_where rl uuid_in st cond rs = Inr out
        \<longrightarrow> (r \<in> set out) = (r \<in> set rs \<and> cond r \<and> context_matches uuid_in st r))
    \<and> (\<forall>rs rs'. (insert_row rl uuid_in st r rs = Inr rs')
          = (context_matches uuid_in st r \<and> rs' = rs @ [r]))
    \<and> (\<forall>cond f rs rs' i. update_where rl uuid_in st cond f rs = Inr rs' \<and> i < length rs
          \<and> rs ! i = r \<and> rs' ! i \<noteq> r
        \<longrightarrow> context_matches uuid_in st r \<and> cond r \<and> rs' ! i = f r
            \<and> passes rl uuid_in st (f r) = Inr True
            \<and> (row_security_applies rl (relation_of (f r)) \<longrightarrow> context_matches uuid_in st (f r)))
    \<and> (\<forall>rel cond db db'. delete_from rl uuid_in st rel cond db = Inr db' \<and> r \<in> set db
        \<longrightarrow> (r \<notin> set db')
            = ((relation_of r = rel \<and> cond r \<and> context_matches uuid_in st r)
               \<or> (\<exists>p. p \<in> set db \<and> p \<notin> set db' \<and> key_of p \<in> set (parent_keys r))))
    \<and> (\<forall>a us t2. resolved_for uuid_in st a \<and> a \<in> set us \<and> distinct (map users_row.id us)
          \<and> owner_tenant us r = Some t2 \<and> t2 \<noteq> users_row.tenant_id a
        \<longrightarrow> passes rl uuid_in st r = Inr False)"
proof -
  note iff = passes_iff_context [OF assms, of uuid_in st]
  have sel: "\<forall>cond rs out. select_where rl uuid_in st cond rs = Inr out
        \<longrightarrow> (r \<in> set out) = (r \<in> set rs \<and> cond r \<and> context_matches uuid_in st r)"
  proof (intro allI impI)
    fix cond rs out
    assume "select_where rl uuid_in st cond rs = Inr out"
    then have "out = filter (\<lambda>r. passes rl uuid_in st r = Inr True \<and> cond r) rs"
      by (rule select_where_filter)
    then show "(r \<in> set out) = (r \<in> set rs \<and> cond r \<and> context_matches uuid_in st r)"
      using iff by auto
  qed
  have ins: "\<forall>rs rs'. (insert_row rl uuid_in st r rs = Inr rs')
          = (context_matches uuid_in st r \<and> rs' = rs @ [r])"
    using insert_row_iff [of rl uuid_in st r] iff by simp
  have upd: "\<forall>cond f rs rs' i. update_where rl uuid_in st cond f rs = Inr rs' \<and> i < length rs
          \<and> rs ! i = r \<and> rs' ! i \<noteq> r
        \<longrightarrow> context_matches uuid_in st r \<and> cond r \<and> rs' ! i = f r
            \<and> passes rl uuid_in st (f r) = Inr True
            \<and> (row_security_applies rl (relation_of (f r)) \<longrightarrow> context_matches uuid_in st (f r))"
  proof (intro allI impI)
    fix cond f rs rs' i
    assume h: "update_where rl uuid_in st cond f rs = Inr rs' \<and> i < length rs
          \<and> rs ! i = r \<and> rs' ! i \<noteq> r"
    then have s: "passes rl uuid_in st r = Inr True \<and> cond r \<and> rs' ! i = f r
        \<and> passes rl uuid_in st (f r) = Inr True"
      using update_where_sound [of rl uuid_in st cond f rs rs' i] by auto
    then have "row_security_applies rl (relation_of (f r)) \<longrightarrow> context_matches uuid_in st (f r)"
      using passes_iff_context [of rl "f r" uuid_in st] by simp
    with s iff show "context_matches uuid_in st r \<and> cond r \<and> rs' ! i = f r
            \<and> passes rl uuid_in st (f r) = Inr True
            \<and> (row_security_applies rl (relation_of (f r)) \<longrightarrow> context_matches uuid_in st (f r))"
      by simp
  qed
  have del: "\<forall>rel cond db db'. delete_from rl uuid_in st rel cond db = Inr db' \<and> r \<in> set db
        \<longrightarrow> (r \<notin> set db')
            = ((relation_of r = rel \<and> cond r \<and> context_matches uuid_in st r)
               \<or> (\<exists>p. p \<in> set db \<and> p \<notin> set db' \<and> key_of p \<in> set (parent_keys r)))"
  proof (intro allI impI)
    fix rel cond db db'
    assume h: "delete_from rl uuid_in st rel cond db = Inr db' \<and> r \<in> set db"
    show "(r \<notin> set db')
            = ((relation_of r = rel \<and> cond r \<and> context_matches uuid_in st r)
               \<or> (\<exists>p. p \<in> set db \<and> p \<notin> set db' \<and> key_of p \<in> set (parent_keys r)))"
    proof
      assume "r \<notin> set db'"
      then show "(relation_of r = rel \<and> cond r \<and> context_matches uuid_in st r)
               \<or> (\<exists>p. p \<in> set db \<and> p \<notin> set db' \<and> key_of p \<in> set (parent_keys r))"
        using delete_from_removed [of rl uuid_in st rel cond db db' r] h iff by blast
    next
      assume "(relation_of r = rel \<and> cond r \<and> context_matches uuid_in st r)
               \<or> (\<exists>p. p \<in> set db \<and> p \<notin> set db' \<and> key_of p \<in> set (parent_keys r))"
      then show "r \<notin> set db'"
        using delete_from_kept [of rl uuid_in st rel cond db db' r] h iff by blast
    qed
  qed
  have iso: "\<forall>a us t2. resolved_for uuid_in st a \<and> a \<in> set us \<and> distinct (map users_row.id us)
          \<and> owner_tenant us r = Some t2 \<and> t2 \<noteq> users_row.tenant_id a
        \<longrightarrow> passes rl uuid_in st r = Inr False"
  proof (intro allI impI)
    fix a us t2
    assume h: "resolved_for uuid_in st a \<and> a \<in> set us \<and> distinct (map users_row.id us)
          \<and> owner_tenant us r = Some t2 \<and> t2 \<noteq> users_row.tenant_id a"
    have "row_level_security (relation_of r)"
      using assms by (rule applies_row_level_security)
    then have "\<not> context_matches uuid_in st r"
      using other_tenant_no_match [of uuid_in st a us r t2] h by simp
    then show "passes rl uuid_in st r = Inr False"
      using resolved_no_error [of uuid_in st a rl r] h assms by simp
  qed
  from sel ins upd del iso show ?thesis by blast
qed

text \<open>
  Claim C2 as stated fails, in two ways. Run by the owner of the tables, to whom no policy
  applies, a \<^verbatim>\<open>SELECT\<close> on \<^verbatim>\<open>users\<close> under the context of user A of tenant T1 returns the row
  of user B of tenant T2. And run by a role under row security with the same context, a
  \<^verbatim>\<open>DELETE\<close> of the row of T2 in \<^verbatim>\<open>tenants\<close>, a table without row security, removes the row of
  user B by cascade.
\<close>

theorem tenant_isolation_counterexample:
  "select_where Table_owner Some
      [''app.current_tenant_id'' \<mapsto> ''T1'', ''app.current_user_id'' \<mapsto> ''A''] no_condition
      [In_users \<lparr>users_row.id = ''A'', tenant_id = ''T1'', email = ''a@acme.com'',
         password_hash = ''x'', created_at = None\<rparr>,
       In_users \<lparr>users_row.id = ''B'', tenant_id = ''T2'', email = ''b@globex.com'',
         password_hash = ''y'', created_at = None\<rparr>]
    = Inr
      [In_users \<lparr>users_row.id = ''A'', tenant_id = ''T1'', email = ''a@acme.com'',
         password_hash = ''x'', created_at = None\<rparr>,
       In_users \<lparr>users_row.id = ''B'', tenant_id = ''T2'', email = ''b@globex.com'',
         password_hash = ''y'', created_at = None\<rparr>]
   \<and> delete_from (Granted_role False) Some
      [''app.current_tenant_id'' \<mapsto> ''T1'', ''app.current_user_id'' \<mapsto> ''A''] Tenants
      ((=) (In_tenants \<lparr>tenants_row.id = ''T2'', name = ''Globex Industries'',
              created_at = None\<rparr>))
      [In_tenants \<lparr>tenants_row.id = ''T1'', name = ''Acme Corporation'', created_at = None\<rparr>,
       In_tenants \<lparr>tenants_row.id = ''T2'', name = ''Globex Industries'', created_at = None\<rparr>,
       In_users \<lparr>users_row.id = ''A'', tenant_id = ''T1'', email = ''a@acme.com'',
         password_hash = ''x'', created_at = None\<rparr>,
       In_users \<lparr>users_row.id = ''B'', tenant_id = ''T2'', email = ''b@globex.com'',
         password_hash = ''y'', created_at = None\<rparr>]
    = Inr
      [In_tenants \<lparr>tenants_row.id = ''T1'', name = ''Acme Corporation'', created_at = None\<rparr>,
       In_users \<lparr>users_row.id = ''A'', tenant_id = ''T1'', email = ''a@acme.com'',
         password_hash = ''x'', created_at = None\<rparr>]"
  by (simp add: passes_def force_row_level_security_def no_condition_def delete_from_def
      table_rows_def cascade.simps referencing_def)

theorem tenant_isolation_witness:
  "row_security_applies (Granted_role False) (relation_of (In_refresh_tokens
      \<lparr>refresh_tokens_row.id = ''k2'', user_id = ''B'', token_hash = ''h2'', expires_at = 9,
       created_at = None\<rparr>))
   \<and> resolved_for Some [''app.current_tenant_id'' \<mapsto> ''T1'', ''app.current_user_id'' \<mapsto> ''A'']
        \<lparr>users_row.id = ''A'', tenant_id = ''T1'', email = ''a@acme.com'', password_hash = ''x'',
         created_at = None\<rparr>
   \<and> owner_tenant
        [\<lparr>users_row.id = ''A'', tenant_id = ''T1'', email = ''a@acme.com'', password_hash = ''x'',
          created_at = None\<rparr>,
         \<lparr>users_row.id = ''B'', tenant_id = ''T2'', email = ''b@globex.com'', password_hash = ''y'',
          created_at = None\<rparr>]
        (In_refresh_tokens
          \<lparr>refresh_tokens_row.id = ''k2'', user_id = ''B'', token_hash = ''h2'', expires_at = 9,
           created_at = None\<rparr>) = Some ''T2''
   \<and> passes (Granted_role False) Some
        [''app.current_tenant_id'' \<mapsto> ''T1'', ''app.current_user_id'' \<mapsto> ''A'']
        (In_refresh_tokens
          \<lparr>refresh_tokens_row.id = ''k2'', user_id = ''B'', token_hash = ''h2'', expires_at = 9,
           created_at = None\<rparr>) = Inr False
   \<and> select_where (Granted_role False) Some
        [''app.current_tenant_id'' \<mapsto> ''T1'', ''app.current_user_id'' \<mapsto> ''A'']
        no_condition
        [In_users \<lparr>users_row.id = ''A'', tenant_id = ''T1'', email = ''a@acme.com'',
           password_hash = ''x'', created_at = None\<rparr>,
         In_users \<lparr>users_row.id = ''B'', tenant_id = ''T2'', email = ''b@globex.com'',
           password_hash = ''y'', created_at = None\<rparr>]
      = Inr [In_users \<lparr>users_row.id = ''A'', tenant_id = ''T1'', email = ''a@acme.com'',
           password_hash = ''x'', created_at = None\<rparr>]
   \<and> context_matches Some [''app.current_tenant_id'' \<mapsto> ''T1'', ''app.current_user_id'' \<mapsto> ''A'']
        (In_users \<lparr>users_row.id = ''A'', tenant_id = ''T1'', email = ''a@acme.com'',
           password_hash = ''x'', created_at = None\<rparr>)"
  using tenant_isolation
    [of "Granted_role False"
        "In_refresh_tokens
          \<lparr>refresh_tokens_row.id = ''k2'', user_id = ''B'', token_hash = ''h2'', expires_at = 9,
           created_at = None\<rparr>"
        Some "[''app.current_tenant_id'' \<mapsto> ''T1'', ''app.current_user_id'' \<mapsto> ''A'']"]
    tenant_isolation
    [of "Granted_role False"
        "In_users \<lparr>users_row.id = ''A'', tenant_id = ''T1'', email = ''a@acme.com'',
           password_hash = ''x'', created_at = None\<rparr>"
        Some "[''app.current_tenant_id'' \<mapsto> ''T1'', ''app.current_user_id'' \<mapsto> ''A'']"]
  by (simp add: resolved_for_def installed_def passes_def users_tenant_isolation_def
      refresh_tokens_user_isolation_def column_eq_setting_def current_setting_def cast_uuid_def
      sql_eq_def no_condition_def)

lemma no_context_fails:
  assumes "st ''app.current_tenant_id'' = None" "st ''app.current_user_id'' = None"
    "row_security_applies rl (relation_of r)"
  shows "passes rl uuid_in st r = Inr False"
proof -
  have "row_level_security (relation_of r)"
    using assms(3) by (rule applies_row_level_security)
  then show ?thesis using assms
    by (cases r)
      (simp_all add: passes_def users_tenant_isolation_def datasets_tenant_isolation_def
        dataset_rows_tenant_isolation_def refresh_tokens_user_isolation_def
        column_eq_setting_def current_setting_def cast_uuid_def sql_eq_def)
qed

lemma no_context_statements:
  assumes "st ''app.current_tenant_id'' = None" "st ''app.current_user_id'' = None"
  shows "\<forall>r \<in> set rs. row_security_applies rl (relation_of r) \<Longrightarrow>
    select_where rl uuid_in st cond rs = Inr []
    \<and> update_where rl uuid_in st cond f rs = Inr rs"
proof (induction rs)
  case Nil
  then show ?case by simp
next
  case (Cons x xs)
  then have "passes rl uuid_in st x = Inr False"
    using no_context_fails [OF assms, of rl x uuid_in] by simp
  with Cons show ?case by simp
qed

text \<open>
  Claim C5, as amended. With no tenant context installed (both settings absent), a statement
  on a table whose row security applies to its role does not run unscoped and raises no
  error for the missing context: \<^verbatim>\<open>SELECT\<close> returns no row, \<^verbatim>\<open>UPDATE\<close> and \<^verbatim>\<open>DELETE\<close> leave every
  row as it is, and only \<^verbatim>\<open>INSERT\<close> fails, as a violation of row security.
\<close>

theorem missing_context_no_rows:
  assumes "st ''app.current_tenant_id'' = None" "st ''app.current_user_id'' = None"
    "row_security_applies rl rel"
  shows "select_where rl uuid_in st cond (table_rows rel db) = Inr []
    \<and> update_where rl uuid_in st cond f (table_rows rel db) = Inr (table_rows rel db)
    \<and> delete_from rl uuid_in st rel cond db = Inr db
    \<and> (relation_of r = rel \<longrightarrow> insert_row rl uuid_in st r rs = Inl Row_security_violation)"
proof -
  have "\<forall>r \<in> set (table_rows rel db). row_security_applies rl (relation_of r)"
    using assms(3) by (simp add: table_rows_def)
  from no_context_statements [OF assms(1,2) this, of uuid_in cond f]
  have su: "select_where rl uuid_in st cond (table_rows rel db) = Inr []
    \<and> update_where rl uuid_in st cond f (table_rows rel db) = Inr (table_rows rel db)" .
  then have de: "delete_from rl uuid_in st rel cond db = Inr db"
    by (simp add: delete_from_def cascade_no_keys)
  have "relation_of r = rel \<longrightarrow> insert_row rl uuid_in st r rs = Inl Row_security_violation"
    using no_context_fails [OF assms(1,2), of rl r uuid_in] assms(3)
    by (auto simp: insert_row_def)
  with su de show ?thesis by simp
qed

text \<open>
  Claim C5 as stated fails: with no setting installed, a \<^verbatim>\<open>SELECT\<close> on \<^verbatim>\<open>users\<close> is no error.
  Run by the owner of the tables it returns the rows of every tenant, unscoped; run by a
  role under row security it succeeds with an empty result, because
  \<^verbatim>\<open>current_setting(..., true)\<close> is \<^verbatim>\<open>NULL\<close> for a missing setting.
\<close>

theorem missing_context_counterexample:
  "select_where Table_owner Some Map.empty no_condition
     [In_users \<lparr>users_row.id = ''A'', tenant_id = ''T1'', email = ''a@acme.com'',
        password_hash = ''x'', created_at = None\<rparr>,
      In_users \<lparr>users_row.id = ''B'', tenant_id = ''T2'', email = ''b@globex.com'',
        password_hash = ''y'', created_at = None\<rparr>]
   = Inr
     [In_users \<lparr>users_row.id = ''A'', tenant_id = ''T1'', email = ''a@acme.com'',
        password_hash = ''x'', created_at = None\<rparr>,
      In_users \<lparr>users_row.id = ''B'', tenant_id = ''T2'', email = ''b@globex.com'',
        password_hash = ''y'', created_at = None\<rparr>]
   \<and> select_where (Granted_role False) Some Map.empty no_condition
     [In_users \<lparr>users_row.id = ''A'', tenant_id = ''T1'', email = ''a@acme.com'',
        password_hash = ''x'', created_at = None\<rparr>,
      In_users \<lparr>users_row.id = ''B'', tenant_id = ''T2'', email = ''b@globex.com'',
        password_hash = ''y'', created_at = None\<rparr>]
   = Inr []"
  by (simp add: passes_def force_row_level_security_def no_condition_def
      users_tenant_isolation_def column_eq_setting_def current_setting_def cast_uuid_def
      sql_eq_def)

theorem missing_context_no_rows_witness:
  "(Map.empty :: settings) ''app.current_tenant_id'' = None
   \<and> row_security_applies (Granted_role False) Datasets
   \<and> delete_from (Granted_role False) Some Map.empty Datasets no_condition
        [In_datasets
          \<lparr>datasets_row.id = ''d'', tenant_id = ''T1'', user_id = ''A'', name = ''gapminder'',
           columns = ''[]'', row_count = 0, created_at = None\<rparr>]
      = Inr [In_datasets
          \<lparr>datasets_row.id = ''d'', tenant_id = ''T1'', user_id = ''A'', name = ''gapminder'',
           columns = ''[]'', row_count = 0, created_at = None\<rparr>]
   \<and> select_where (Granted_role False) Some Map.empty no_condition
        (table_rows Datasets [In_datasets
          \<lparr>datasets_row.id = ''d'', tenant_id = ''T1'', user_id = ''A'', name = ''gapminder'',
           columns = ''[]'', row_count = 0, created_at = None\<rparr>]) = Inr []
   \<and> insert_row (Granted_role False) Some Map.empty
        (In_datasets
          \<lparr>datasets_row.id = ''d'', tenant_id = ''T1'', user_id = ''A'', name = ''gapminder'',
           columns = ''[]'', row_count = 0, created_at = None\<rparr>)
        []
      = Inl Row_security_violation"
  using missing_context_no_rows
    [of Map.empty "Granted_role False" Datasets Some no_condition
        "[In_datasets
          \<lparr>datasets_row.id = ''d'', tenant_id = ''T1'', user_id = ''A'', name = ''gapminder'',
           columns = ''[]'', row_count = 0, created_at = None\<rparr>]"
        "\<lambda>r. r"
        "In_datasets
          \<lparr>datasets_row.id = ''d'', tenant_id = ''T1'', user_id = ''A'', name = ''gapminder'',
           columns = ''[]'', row_count = 0, created_at = None\<rparr>"
        "[]"]
  by simp

lemma tenants_exempt: "\<not> row_security_applies rl Tenants"
  by (cases rl) simp_all

lemma select_tenants:
  "select_where rl uuid_in st cond (map In_tenants ts) = Inr (filter cond (map In_tenants ts))"
  by (induction ts) (simp_all add: passes_def tenants_exempt)

text \<open>
  Claim C9. The table \<^verbatim>\<open>tenants\<close> is under no row security: reading it returns every row that
  satisfies the statement's condition, and all rows for a condition that holds everywhere,
  whatever the role and the settings are and whether or not they are installed; two callers
  get the same.
\<close>

theorem tenants_directory_unscoped:
  "select_where rl uuid_in st cond (map In_tenants ts) = Inr (filter cond (map In_tenants ts))
   \<and> select_where rl uuid_in st (\<lambda>r. True) (map In_tenants ts) = Inr (map In_tenants ts)
   \<and> select_where rl uuid_in st (\<lambda>r. True) (map In_tenants ts)
       = select_where rl' uuid_in' st' (\<lambda>r. True) (map In_tenants ts)"
  by (simp add: select_tenants)

theorem tenants_directory_unscoped_witness:
  "select_where (Granted_role False) Some Map.empty (\<lambda>r. True)
     (map In_tenants
       [\<lparr>tenants_row.id = ''a0eebc99'', name = ''Acme Corporation'', created_at = None\<rparr>,
        \<lparr>tenants_row.id = ''b1eebc99'', name = ''Globex Industries'', created_at = None\<rparr>])
   = select_where Table_owner Some [''app.current_tenant_id'' \<mapsto> ''a0eebc99''] (\<lambda>r. True)
     (map In_tenants
       [\<lparr>tenants_row.id = ''a0eebc99'', name = ''Acme Corporation'', created_at = None\<rparr>,
        \<lparr>tenants_row.id = ''b1eebc99'', name = ''Globex Industries'', created_at = None\<rparr>])"
  using tenants_directory_unscoped
    [of "Granted_role False" Some Map.empty "\<lambda>r. True"
       "[\<lparr>tenants_row.id = ''a0eebc99'', name = ''Acme Corporation'', created_at = None\<rparr>,
         \<lparr>tenants_row.id = ''b1eebc99'', name = ''Globex Industries'', created_at = None\<rparr>]"
       Table_owner Some "[''app.current_tenant_id'' \<mapsto> ''a0eebc99'']"]
  by (simp add: passes_def)

section \<open>Properties of the Refresh Rotator\<close>

lemma find_map_append:
  "find P xs = Some x \<Longrightarrow> (\<And>y. P (g y) = P y) \<Longrightarrow> find P (map g xs @ ys) = Some (g x)"
  by (induction xs) (auto split: if_splits)

lemma find_hit: "find P xs = Some x \<Longrightarrow> P x \<and> x \<in> set xs"
  by (induction xs) (auto split: if_splits)

lemma lookup_hit:
  "lookup_token h store = Some (r, s) \<Longrightarrow> token_hash r = h \<and> (r, s) \<in> set store"
  using find_hit [of "\<lambda>e. token_hash (fst e) = h" store "(r, s)"]
  by (simp add: lookup_token_def)

lemma lookup_after_mark:
  assumes "lookup_token h store = Some (r, s)"
  shows "lookup_token h
           (map (\<lambda>e. if token_hash (fst e) = h then (fst e, ROTATED) else e) store @ ys)
         = Some (r, ROTATED)"
proof -
  have hit: "token_hash r = h"
    using assms lookup_hit by blast
  have "find (\<lambda>e. token_hash (fst e) = h)
          (map (\<lambda>e. if token_hash (fst e) = h then (fst e, ROTATED) else e) store @ ys)
        = Some ((\<lambda>e. if token_hash (fst e) = h then (fst e, ROTATED) else e) (r, s))"
    using assms unfolding lookup_token_def
    by (rule find_map_append) simp
  then show ?thesis using hit by (simp add: lookup_token_def)
qed

lemma rotate_success:
  assumes "rotate env i rawToken store = (store', Rotated a n)"
  shows "\<exists>r s. lookup_token (hash env rawToken) store = Some (r, s) \<and> usable s
           \<and> now env \<le> expires_at r \<and> i = None
           \<and> store' = map (\<lambda>e. if token_hash (fst e) = hash env rawToken then (fst e, ROTATED)
                                 else e) store @ [(successor env r, ACTIVE)]
           \<and> a = issueAccessToken env (refresh_tokens_row.user_id r) \<and> n = new_raw env"
proof -
  obtain r s where l: "lookup_token (hash env rawToken) store = Some (r, s)"
    using assms by (auto simp: rotate_def split: option.splits)
  then have hit: "token_hash r = hash env rawToken"
    using lookup_hit by blast
  from assms l hit show ?thesis
    by (auto simp: rotate_def transaction_def split: if_splits option.splits sum.splits)
qed

lemma mark_keeps_rows:
  "map fst (map (\<lambda>e. if token_hash (fst e) = h then (fst e, ROTATED) else e) store)
     = map fst store"
  by (induction store) auto

lemma insert_after_mark:
  assumes "token_hash r \<notin> set (map (\<lambda>e. token_hash (fst e)) store)"
    "refresh_tokens_row.id r \<notin> set (map (\<lambda>e. refresh_tokens_row.id (fst e)) store)"
  shows "execute (Insert_active r)
           (map (\<lambda>e. if token_hash (fst e) = h then (fst e, ROTATED) else e) store)
         = Inr (map (\<lambda>e. if token_hash (fst e) = h then (fst e, ROTATED) else e) store
                @ [(r, ACTIVE)])"
proof -
  let ?m = "map (\<lambda>e. if token_hash (fst e) = h then (fst e, ROTATED) else e) store"
  have a: "map (\<lambda>e. token_hash (fst e)) ?m = map token_hash (map fst ?m)"
    and b: "map (\<lambda>e. refresh_tokens_row.id (fst e)) ?m = map refresh_tokens_row.id (map fst ?m)"
    and c: "map (\<lambda>e. token_hash (fst e)) store = map token_hash (map fst store)"
    and d: "map (\<lambda>e. refresh_tokens_row.id (fst e)) store
              = map refresh_tokens_row.id (map fst store)"
    by (simp_all add: o_def)
  have "token_hash r \<notin> set (map (\<lambda>e. token_hash (fst e)) ?m)"
    using assms(1) unfolding a c mark_keeps_rows .
  moreover have "refresh_tokens_row.id r \<notin> set (map (\<lambda>e. refresh_tokens_row.id (fst e)) ?m)"
    using assms(2) unfolding b d mark_keeps_rows .
  ultimately show ?thesis by simp
qed

lemma rotate_valid:
  assumes "lookup_token (hash env rawToken) store = Some (r, s)" "usable s"
    "now env \<le> expires_at r"
    "hash env (new_raw env) \<notin> set (map (\<lambda>e. token_hash (fst e)) store)"
    "new_id env \<notin> set (map (\<lambda>e. refresh_tokens_row.id (fst e)) store)"
  shows "rotate env None rawToken store =
     (map (\<lambda>e. if token_hash (fst e) = hash env rawToken then (fst e, ROTATED) else e) store
        @ [(successor env r, ACTIVE)],
      Rotated (issueAccessToken env (refresh_tokens_row.user_id r)) (new_raw env))"
proof -
  have hit: "token_hash r = hash env rawToken"
    using assms(1) lookup_hit by blast
  have "token_hash (successor env r) \<notin> set (map (\<lambda>e. token_hash (fst e)) store)"
    "refresh_tokens_row.id (successor env r)
       \<notin> set (map (\<lambda>e. refresh_tokens_row.id (fst e)) store)"
    using assms(4,5) by (simp_all add: successor_def)
  from insert_after_mark [OF this, of "hash env rawToken"]
  have "execute_all [Mark_rotated (token_hash r), Insert_active (successor env r)] store
     = Inr (map (\<lambda>e. if token_hash (fst e) = hash env rawToken then (fst e, ROTATED) else e)
              store @ [(successor env r, ACTIVE)])"
    using hit by simp
  then show ?thesis
    using assms(1,2,3) by (simp add: rotate_def transaction_def)
qed

lemma rotate_again:
  assumes "rotate env i rawToken store = (store', Rotated a n)" "hash env' = hash env"
  shows "rotate env' i' rawToken store' = (store', Fails InvalidToken)"
proof -
  from rotate_success [OF assms(1)] obtain r s where
    l: "lookup_token (hash env rawToken) store = Some (r, s)" and
    st: "store' = map (\<lambda>e. if token_hash (fst e) = hash env rawToken then (fst e, ROTATED)
                                 else e) store @ [(successor env r, ACTIVE)]"
    by blast
  have "lookup_token (hash env rawToken) store' = Some (r, ROTATED)"
    unfolding st using l by (rule lookup_after_mark)
  then show ?thesis using assms(2) by (simp add: rotate_def usable_def)
qed

lemma mark_usable_le:
  "length (filter (\<lambda>e. usable (snd e))
      (map (\<lambda>e. if token_hash (fst e) = h then (fst e, ROTATED) else e) store))
   \<le> length (filter (\<lambda>e. usable (snd e)) store)"
  by (induction store) (auto simp: usable_def)

lemma mark_usable_less:
  "e \<in> set store \<Longrightarrow> token_hash (fst e) = h \<Longrightarrow> usable (snd e) \<Longrightarrow>
   length (filter (\<lambda>e. usable (snd e))
      (map (\<lambda>e. if token_hash (fst e) = h then (fst e, ROTATED) else e) store))
   < length (filter (\<lambda>e. usable (snd e)) store)"
proof (induction store)
  case Nil
  then show ?case by simp
next
  case (Cons x xs)
  show ?case
  proof (cases "e = x")
    case True
    then show ?thesis using Cons.prems mark_usable_le [of h xs]
      by (simp add: usable_def less_Suc_eq_le)
  next
    case False
    then have "e \<in> set xs" using Cons.prems by simp
    from Cons.IH [OF this Cons.prems(2,3)] show ?thesis by (auto simp: usable_def)
  qed
qed

lemma rotate_usable_count:
  "usable_count (fst (rotate env i rawToken store)) \<le> usable_count store"
proof (cases "\<exists>a n. snd (rotate env i rawToken store) = Rotated a n")
  case True
  then obtain store' a n where ro: "rotate env i rawToken store = (store', Rotated a n)"
    by (metis prod.collapse)
  from rotate_success [OF ro] obtain r s where
    l: "lookup_token (hash env rawToken) store = Some (r, s)" and us: "usable s" and
    st: "store' = map (\<lambda>e. if token_hash (fst e) = hash env rawToken then (fst e, ROTATED)
                                 else e) store @ [(successor env r, ACTIVE)]"
    by blast
  from l have "(r, s) \<in> set store" "token_hash (fst (r, s)) = hash env rawToken"
    using lookup_hit [of "hash env rawToken" store r s] by simp_all
  from mark_usable_less [OF this] us
  show ?thesis using ro st by (simp add: usable_count_def usable_def)
next
  case False
  then have "fst (rotate env i rawToken store) = store"
    by (auto simp: rotate_def transaction_def split: option.splits sum.splits if_splits)
  then show ?thesis by simp
qed

lemma rotate_interrupted:
  "fst (rotate env (Some k) rawToken store) = store
   \<and> (\<forall>a n. snd (rotate env (Some k) rawToken store) \<noteq> Rotated a n)"
  by (auto simp: rotate_def transaction_def split: option.splits)

text \<open>
  Claim C3. A raw refresh token rotates at most once. A call of \<^verbatim>\<open>rotate\<close> with a usable,
  unexpired token succeeds, given a fresh identifier and a fresh token hash for the successor.
  Every success has marked the looked-up record \<open>ROTATED\<close> and inserted the successor of the
  same user as an \<open>ACTIVE\<close> record, both at once, and after it every call with the same raw
  token fails with \<open>InvalidToken\<close> and leaves the store as it is. A rotation never raises the
  number of usable records, and a rotation that is interrupted before its commit persists
  nothing and reports no success, so the looked-up record and its successor are never both
  usable.
\<close>

theorem rotate_at_most_once:
  "(\<forall>store' a n. rotate env i rawToken store = (store', Rotated a n) \<longrightarrow>
      (\<exists>r s. lookup_token (hash env rawToken) store = Some (r, s) \<and> usable s
          \<and> now env \<le> expires_at r \<and> i = None
          \<and> store' = map (\<lambda>e. if token_hash (fst e) = hash env rawToken then (fst e, ROTATED)
                                else e) store @ [(successor env r, ACTIVE)]
          \<and> lookup_token (hash env rawToken) store' = Some (r, ROTATED)
          \<and> a = issueAccessToken env (refresh_tokens_row.user_id r) \<and> n = new_raw env)
      \<and> (\<forall>env' i'. hash env' = hash env
            \<longrightarrow> rotate env' i' rawToken store' = (store', Fails InvalidToken)))
   \<and> (\<forall>r s. lookup_token (hash env rawToken) store = Some (r, s) \<and> usable s
          \<and> now env \<le> expires_at r
          \<and> hash env (new_raw env) \<notin> set (map (\<lambda>e. token_hash (fst e)) store)
          \<and> new_id env \<notin> set (map (\<lambda>e. refresh_tokens_row.id (fst e)) store)
        \<longrightarrow> rotate env None rawToken store =
            (map (\<lambda>e. if token_hash (fst e) = hash env rawToken then (fst e, ROTATED) else e)
               store @ [(successor env r, ACTIVE)],
             Rotated (issueAccessToken env (refresh_tokens_row.user_id r)) (new_raw env)))
   \<and> usable_count (fst (rotate env i rawToken store)) \<le> usable_count store
   \<and> (\<forall>k. fst (rotate env (Some k) rawToken store) = store
          \<and> (\<forall>a n. snd (rotate env (Some k) rawToken store) \<noteq> Rotated a n))"
proof -
  have first: "\<forall>store' a n. rotate env i rawToken store = (store', Rotated a n) \<longrightarrow>
      (\<exists>r s. lookup_token (hash env rawToken) store = Some (r, s) \<and> usable s
          \<and> now env \<le> expires_at r \<and> i = None
          \<and> store' = map (\<lambda>e. if token_hash (fst e) = hash env rawToken then (fst e, ROTATED)
                                else e) store @ [(successor env r, ACTIVE)]
          \<and> lookup_token (hash env rawToken) store' = Some (r, ROTATED)
          \<and> a = issueAccessToken env (refresh_tokens_row.user_id r) \<and> n = new_raw env)
      \<and> (\<forall>env' i'. hash env' = hash env
            \<longrightarrow> rotate env' i' rawToken store' = (store', Fails InvalidToken))"
  proof (intro allI impI)
    fix store' a n
    assume ro: "rotate env i rawToken store = (store', Rotated a n)"
    from rotate_success [OF ro] obtain r s where
      l: "lookup_token (hash env rawToken) store = Some (r, s)" and
      rest: "usable s" "now env \<le> expires_at r" "i = None"
        "a = issueAccessToken env (refresh_tokens_row.user_id r)" "n = new_raw env" and
      st: "store' = map (\<lambda>e. if token_hash (fst e) = hash env rawToken then (fst e, ROTATED)
                                else e) store @ [(successor env r, ACTIVE)]"
      by blast
    have "lookup_token (hash env rawToken) store' = Some (r, ROTATED)"
      unfolding st using l by (rule lookup_after_mark)
    with l rest st have ex: "\<exists>r s. lookup_token (hash env rawToken) store = Some (r, s) \<and> usable s
          \<and> now env \<le> expires_at r \<and> i = None
          \<and> store' = map (\<lambda>e. if token_hash (fst e) = hash env rawToken then (fst e, ROTATED)
                                else e) store @ [(successor env r, ACTIVE)]
          \<and> lookup_token (hash env rawToken) store' = Some (r, ROTATED)
          \<and> a = issueAccessToken env (refresh_tokens_row.user_id r) \<and> n = new_raw env"
      by blast
    have "\<forall>env' i'. hash env' = hash env
            \<longrightarrow> rotate env' i' rawToken store' = (store', Fails InvalidToken)"
      using rotate_again [OF ro] by blast
    with ex show "(\<exists>r s. lookup_token (hash env rawToken) store = Some (r, s) \<and> usable s
          \<and> now env \<le> expires_at r \<and> i = None
          \<and> store' = map (\<lambda>e. if token_hash (fst e) = hash env rawToken then (fst e, ROTATED)
                                else e) store @ [(successor env r, ACTIVE)]
          \<and> lookup_token (hash env rawToken) store' = Some (r, ROTATED)
          \<and> a = issueAccessToken env (refresh_tokens_row.user_id r) \<and> n = new_raw env)
      \<and> (\<forall>env' i'. hash env' = hash env
            \<longrightarrow> rotate env' i' rawToken store' = (store', Fails InvalidToken))"
      by (rule conjI)
  qed
  have second: "\<forall>r s. lookup_token (hash env rawToken) store = Some (r, s) \<and> usable s
          \<and> now env \<le> expires_at r
          \<and> hash env (new_raw env) \<notin> set (map (\<lambda>e. token_hash (fst e)) store)
          \<and> new_id env \<notin> set (map (\<lambda>e. refresh_tokens_row.id (fst e)) store)
        \<longrightarrow> rotate env None rawToken store =
            (map (\<lambda>e. if token_hash (fst e) = hash env rawToken then (fst e, ROTATED) else e)
               store @ [(successor env r, ACTIVE)],
             Rotated (issueAccessToken env (refresh_tokens_row.user_id r)) (new_raw env))"
    using rotate_valid [of env rawToken store] by blast
  have third: "usable_count (fst (rotate env i rawToken store)) \<le> usable_count store"
    by (rule rotate_usable_count)
  have fourth: "\<forall>k. fst (rotate env (Some k) rawToken store) = store
          \<and> (\<forall>a n. snd (rotate env (Some k) rawToken store) \<noteq> Rotated a n)"
    using rotate_interrupted [of env _ rawToken store] by blast
  from first second third fourth show ?thesis by (intro conjI)
qed

lemma revoke_idempotent: "revoke h rawToken (revoke h rawToken store) = revoke h rawToken store"
  by (induction store) (auto simp: revoke_def usable_def)

lemma revoke_invalidates:
  "e \<in> set (revoke h rawToken store) \<Longrightarrow> token_hash (fst e) = h rawToken \<Longrightarrow> \<not> usable (snd e)"
  by (auto simp: revoke_def usable_def split: if_splits)

text \<open>
  Claim C8. \<^verbatim>\<open>POST /auth/logout\<close> answers with status 204 with or without a cookie; a second
  call with the same cookie answers the same and changes nothing further; and after a call
  with a cookie no record of that token is usable.
\<close>

theorem logout_idempotent:
  "snd (auth_logout h cookie store) = 204
   \<and> auth_logout h cookie (fst (auth_logout h cookie store)) = auth_logout h cookie store
   \<and> auth_logout h None store = (store, 204)
   \<and> (\<forall>rawToken e. cookie = Some rawToken \<and> e \<in> set (fst (auth_logout h cookie store))
         \<and> token_hash (fst e) = h rawToken \<longrightarrow> \<not> usable (snd e))"
  using revoke_invalidates [of _ h _ store]
  by (auto simp: auth_logout_def revoke_idempotent split: option.splits)

theorem rotate_at_most_once_witness:
  "rotate \<lparr>hash = (\<lambda>x. ''h'' @ x), now = 5, refreshTokenTTL = 100, new_id = ''k2'',
           new_raw = ''raw2'', issueAccessToken = (\<lambda>u. ''access-'' @ u)\<rparr>
      None ''raw1''
      [(\<lparr>refresh_tokens_row.id = ''k1'', user_id = ''A'', token_hash = ''hraw1'',
         expires_at = 50, created_at = Some 1\<rparr>, ACTIVE)]
    = ([(\<lparr>refresh_tokens_row.id = ''k1'', user_id = ''A'', token_hash = ''hraw1'',
          expires_at = 50, created_at = Some 1\<rparr>, ROTATED),
        (\<lparr>refresh_tokens_row.id = ''k2'', user_id = ''A'', token_hash = ''hraw2'',
          expires_at = 105, created_at = Some 5\<rparr>, ACTIVE)],
       Rotated ''access-A'' ''raw2'')
   \<and> rotate \<lparr>hash = (\<lambda>x. ''h'' @ x), now = 6, refreshTokenTTL = 100, new_id = ''k3'',
           new_raw = ''raw3'', issueAccessToken = (\<lambda>u. ''access-'' @ u)\<rparr>
      None ''raw1''
      [(\<lparr>refresh_tokens_row.id = ''k1'', user_id = ''A'', token_hash = ''hraw1'',
          expires_at = 50, created_at = Some 1\<rparr>, ROTATED),
       (\<lparr>refresh_tokens_row.id = ''k2'', user_id = ''A'', token_hash = ''hraw2'',
          expires_at = 105, created_at = Some 5\<rparr>, ACTIVE)]
    = ([(\<lparr>refresh_tokens_row.id = ''k1'', user_id = ''A'', token_hash = ''hraw1'',
          expires_at = 50, created_at = Some 1\<rparr>, ROTATED),
        (\<lparr>refresh_tokens_row.id = ''k2'', user_id = ''A'', token_hash = ''hraw2'',
          expires_at = 105, created_at = Some 5\<rparr>, ACTIVE)],
       Fails InvalidToken)"
  using rotate_at_most_once
    [of "\<lparr>hash = (\<lambda>x. ''h'' @ x), now = 5, refreshTokenTTL = 100, new_id = ''k2'',
           new_raw = ''raw2'', issueAccessToken = (\<lambda>u. ''access-'' @ u)\<rparr>"
        None "''raw1''"
        "[(\<lparr>refresh_tokens_row.id = ''k1'', user_id = ''A'', token_hash = ''hraw1'',
           expires_at = 50, created_at = Some 1\<rparr>, ACTIVE)]"]
  by (simp add: rotate_def lookup_token_def usable_def transaction_def successor_def)

theorem logout_idempotent_witness:
  "auth_logout (\<lambda>x. ''h'' @ x) (Some ''raw1'')
      [(\<lparr>refresh_tokens_row.id = ''k1'', user_id = ''A'', token_hash = ''hraw1'',
         expires_at = 50, created_at = Some 1\<rparr>, ACTIVE)]
    = ([(\<lparr>refresh_tokens_row.id = ''k1'', user_id = ''A'', token_hash = ''hraw1'',
         expires_at = 50, created_at = Some 1\<rparr>, REVOKED)], 204)
   \<and> auth_logout (\<lambda>x. ''h'' @ x) (Some ''raw1'')
      [(\<lparr>refresh_tokens_row.id = ''k1'', user_id = ''A'', token_hash = ''hraw1'',
         expires_at = 50, created_at = Some 1\<rparr>, REVOKED)]
    = ([(\<lparr>refresh_tokens_row.id = ''k1'', user_id = ''A'', token_hash = ''hraw1'',
         expires_at = 50, created_at = Some 1\<rparr>, REVOKED)], 204)"
  using logout_idempotent
    [of "\<lambda>x. ''h'' @ x" "Some ''raw1''"
        "[(\<lparr>refresh_tokens_row.id = ''k1'', user_id = ''A'', token_hash = ''hraw1'',
           expires_at = 50, created_at = Some 1\<rparr>, ACTIVE)]"]
  by (simp add: auth_logout_def revoke_def usable_def)

end
